theory Spec2Isabelle
  imports Complex_Main "HOL-Library.Word" "HOL-Library.Sublist"
begin

section \<open>JavaScript values used by \<open>Orbit_Vis_V1.js\<close>\<close>

text \<open>
  A JavaScript string is a sequence of UTF-16 code units, and \<open>trim\<close>, \<open>split\<close> and
  \<open>startsWith\<close> all work on code units. A string is therefore a list of 16-bit words.
  \<open>lit\<close> turns an ASCII literal of the source into its code units.
\<close>

type_synonym ustring = "16 word list"

definition lit :: "string \<Rightarrow> ustring" where
  "lit s = map of_char s"

definition LF :: "16 word" where
  "LF = 0x0A"

definition CR :: "16 word" where
  "CR = 0x0D"

text \<open>
  Reading an array past its end gives \<open>undefined\<close>; calling a method on \<open>undefined\<close>
  throws a \<open>TypeError\<close>. \<open>Error\<close> is any other error thrown, by \<open>new Error(...)\<close> of
  the program or by a library, with its message.
\<close>

datatype jsval = Undefined | Str ustring

datatype js_error = TypeError | Error ustring

text \<open>\<open>xs[i]\<close> on an array of strings.\<close>

definition index :: "ustring list \<Rightarrow> nat \<Rightarrow> jsval" where
  "index xs i = (if i < length xs then Str (xs ! i) else Undefined)"

text \<open>
  \<open>v.startsWith(p)\<close>: a \<open>TypeError\<close> when \<open>v\<close> is \<open>undefined\<close>, otherwise whether
  the code units of \<open>p\<close> are a prefix of those of \<open>v\<close>.
\<close>

definition startsWith :: "jsval \<Rightarrow> ustring \<Rightarrow> js_error + bool" where
  "startsWith v p = (case v of Undefined \<Rightarrow> Inl TypeError | Str s \<Rightarrow> Inr (prefix p s))"

text \<open>
  The truth value of \<open>v?.startsWith(p)\<close> in a condition: optional chaining yields
  \<open>undefined\<close> (falsy) when \<open>v\<close> is \<open>undefined\<close> and never throws.
\<close>

definition optStartsWith :: "jsval \<Rightarrow> ustring \<Rightarrow> bool" where
  "optStartsWith v p = (case v of Undefined \<Rightarrow> False | Str s \<Rightarrow> prefix p s)"

text \<open>
  \<open>String(n)\<close> for a non-negative integer below \<open>10^21\<close> (an array length always is):
  its decimal digits.
\<close>

function digits :: "nat \<Rightarrow> ustring" where
  "digits n = (if n < 10 then [of_nat (48 + n)] else digits (n div 10) @ [of_nat (48 + n mod 10)])"
  by pat_completeness auto
termination
  by (relation "measure id") auto

declare digits.simps [simp del]

subsection \<open>\<open>text.split(/\\r?\\n/).map((l) => l.trim()).filter(Boolean)\<close>\<close>

text \<open>
  \<open>split(/\\r?\\n/)\<close> cuts the text at every line feed, taking a carriage return that
  stands directly before it into the separator. The text always yields at least one
  piece; \<open>cur\<close> is the piece being read, in reading order.
\<close>

fun splitFrom :: "ustring \<Rightarrow> ustring \<Rightarrow> ustring list" where
  "splitFrom cur [] = [cur]"
| "splitFrom cur [c] = (if c = LF then [cur, []] else [cur @ [c]])"
| "splitFrom cur (c # d # cs) =
     (if c = CR \<and> d = LF then cur # splitFrom [] cs
      else if c = LF then cur # splitFrom [] (d # cs)
      else splitFrom (cur @ [c]) (d # cs))"

definition splitLines :: "ustring \<Rightarrow> ustring list" where
  "splitLines s = splitFrom [] s"

text \<open>
  The code units \<open>trim\<close> strips: ECMAScript's WhiteSpace (TAB, VT, FF, SP, NBSP, ZWNBSP
  and the space separators) and LineTerminator (LF, CR, LS, PS).
\<close>

definition isWhiteSpace :: "16 word \<Rightarrow> bool" where
  "isWhiteSpace c =
     (c = 0x0009 \<or> c = 0x000A \<or> c = 0x000B \<or> c = 0x000C \<or> c = 0x000D \<or> c = 0x0020
      \<or> c = 0x00A0 \<or> c = 0x1680 \<or> (0x2000 \<le> c \<and> c \<le> 0x200A) \<or> c = 0x2028
      \<or> c = 0x2029 \<or> c = 0x202F \<or> c = 0x205F \<or> c = 0x3000 \<or> c = 0xFEFF)"

definition trim :: "ustring \<Rightarrow> ustring" where
  "trim s = rev (dropWhile isWhiteSpace (rev (dropWhile isWhiteSpace s)))"

text \<open>\<open>filter(Boolean)\<close> on strings keeps the non-empty ones.\<close>

definition normalizeLines :: "ustring \<Rightarrow> ustring list" where
  "normalizeLines s = filter (\<lambda>l. l \<noteq> []) (map trim (splitLines s))"

section \<open>The element-set parser, \<open>parseTLEText\<close>\<close>

record ElementSet =
  name :: jsval
  tle1 :: jsval
  tle2 :: jsval

text \<open>The loop variables: the index \<open>i\<close> and the array \<open>out\<close>.\<close>

record scan =
  idx :: nat
  out :: "ElementSet list"

text \<open>
  One run of the loop body at a state whose index the loop guard has admitted. The two
  conditions are evaluated in the source's order, \<open>lines[i].startsWith\<close> first.
\<close>

definition body :: "ustring list \<Rightarrow> scan \<Rightarrow> js_error + scan" where
  "body lines st =
     (let i = idx st in
      case startsWith (index lines i) (lit ''1 '') of
        Inl e \<Rightarrow> Inl e
      | Inr one \<Rightarrow>
          if one \<and> optStartsWith (index lines (i + 1)) (lit ''2 '') then
            Inr \<lparr>idx = i + 2,
                 out = out st @
                   [\<lparr>name = Str (lit ''SAT '' @ digits (length (out st) + 1)),
                     tle1 = index lines i,
                     tle2 = index lines (i + 1)\<rparr>]\<rparr>
          else
            (case startsWith (index lines i) (lit ''1 '') of
               Inl e \<Rightarrow> Inl e
             | Inr one' \<Rightarrow>
                 if \<not> one' \<and> optStartsWith (index lines (i + 1)) (lit ''1 '')
                    \<and> optStartsWith (index lines (i + 2)) (lit ''2 '') then
                   Inr \<lparr>idx = i + 3,
                        out = out st @
                          [\<lparr>name = index lines i,
                            tle1 = index lines (i + 1),
                            tle2 = index lines (i + 2)\<rparr>]\<rparr>
                 else Inr \<lparr>idx = i + 1, out = out st\<rparr>))"

text \<open>\<open>for (let i = 0; i < lines.length; ) { ... }\<close>, from any state.\<close>

function loop :: "ustring list \<Rightarrow> scan \<Rightarrow> js_error + scan" where
  "loop lines st =
     (if idx st < length lines then
        (case body lines st of Inl e \<Rightarrow> Inl e | Inr st' \<Rightarrow> loop lines st')
      else Inr st)"
  by pat_completeness auto
termination
proof (relation "measure (\<lambda>(lines, st). length lines - idx st)")
  show "wf (measure (\<lambda>(lines, st). length lines - idx st))"
    by simp
next
  fix lines :: "ustring list" and st st' :: scan
  assume "idx st < length lines" and "body lines st = Inr st'"
  then show "((lines, st'), (lines, st)) \<in> measure (\<lambda>(lines, st). length lines - idx st)"
    by (auto simp: body_def Let_def split: sum.splits if_splits)
qed

declare loop.simps [simp del]

definition parseTLEText :: "ustring \<Rightarrow> js_error + ElementSet list" where
  "parseTLEText s =
     (case loop (normalizeLines s) \<lparr>idx = 0, out = []\<rparr> of
        Inl e \<Rightarrow> Inl e
      | Inr st \<Rightarrow> Inr (out st))"

text \<open>
  A ghost counter for the loop: how many times the body runs from a state. A run that
  throws is counted and ends the loop.
\<close>

function iterations :: "ustring list \<Rightarrow> scan \<Rightarrow> nat" where
  "iterations lines st =
     (if idx st < length lines then
        (case body lines st of Inl e \<Rightarrow> 1 | Inr st' \<Rightarrow> Suc (iterations lines st'))
      else 0)"
  by pat_completeness auto
termination
proof (relation "measure (\<lambda>(lines, st). length lines - idx st)")
  show "wf (measure (\<lambda>(lines, st). length lines - idx st))"
    by simp
next
  fix lines :: "ustring list" and st st' :: scan
  assume "idx st < length lines" and "body lines st = Inr st'"
  then show "((lines, st'), (lines, st)) \<in> measure (\<lambda>(lines, st). length lines - idx st)"
    by (auto simp: body_def Let_def split: sum.splits if_splits)
qed

declare iterations.simps [simp del]

subsection \<open>The groups of the specification\<close>

text \<open>
  The specification's two kinds of group, at index \<open>i\<close> of the normalized line list: a
  line starting with \<open>"1 "\<close> directly followed by one starting with \<open>"2 "\<close>; and a line
  not starting with \<open>"1 "\<close> followed by such a pair.
\<close>

definition group2_at :: "ustring list \<Rightarrow> nat \<Rightarrow> bool" where
  "group2_at lines i =
     (i + 1 < length lines \<and> prefix (lit ''1 '') (lines ! i)
      \<and> prefix (lit ''2 '') (lines ! (i + 1)))"

definition group3_at :: "ustring list \<Rightarrow> nat \<Rightarrow> bool" where
  "group3_at lines i =
     (i + 2 < length lines \<and> \<not> prefix (lit ''1 '') (lines ! i)
      \<and> prefix (lit ''1 '') (lines ! (i + 1)) \<and> prefix (lit ''2 '') (lines ! (i + 2)))"

section \<open>The trajectory sampler, \<open>addSatelliteFromTLE\<close>\<close>

text \<open>
  JavaScript numbers are IEEE doubles; every finite double is a rational, and an instant
  (\<open>JulianDate\<close>, \<open>Date\<close>) is a number of seconds on one rational time axis. The loop
  counters \<open>t\<close> are whole numbers far below \<open>2^53\<close>, where doubles are exact.
  \<open>JulianDate.addSeconds\<close> and \<open>JulianDate.secondsDifference\<close> are read without rounding.
\<close>

type_synonym instant = rat

type_synonym vec3 = "rat \<times> rat \<times> rat"

definition addSeconds :: "instant \<Rightarrow> rat \<Rightarrow> instant" where
  "addSeconds j s = j + s"

definition secondsDifference :: "instant \<Rightarrow> instant \<Rightarrow> rat" where
  "secondsDifference a b = a - b"

text \<open>\<open>const timewindow = 2\<close>.\<close>

definition timewindow :: rat where
  "timewindow = 2"

text \<open>
  What \<open>satellite.propagate\<close> returns: no object at all (\<open>null\<close> or \<open>undefined\<close>, as
  satellite.js 6 returns for a failed propagation), or an object, of which the program
  reads \<open>position\<close>: \<open>None\<close> when that is falsy (\<open>false\<close> or \<open>undefined\<close>, the failure
  signal of earlier versions), or the position vector.
\<close>

datatype propagation = NoObject | PosVel "vec3 option"

record geodetic =
  longitude :: rat
  latitude :: rat
  height :: rat

type_synonym sample = "instant \<times> vec3"

text \<open>
  The libraries the program calls, as parameters; a call that throws gives \<open>Inl\<close>. From
  Cesium: \<open>JulianDate.addHours\<close>, which rounds its result to a double;
  \<open>Cartesian3.fromDegrees\<close> and \<open>fromRadians\<close>; \<open>getValue\<close> of a \<open>SampledPositionProperty\<close>,
  \<open>None\<close> for \<open>undefined\<close>; \<open>cartesianToCartographic\<close> of the globe's ellipsoid, \<open>None\<close> for
  \<open>undefined\<close>. From satellite.js: \<open>twoline2satrec\<close>, \<open>propagate\<close>, \<open>gstime\<close>,
  \<open>eciToGeodetic\<close>, \<open>degreesLong\<close>, \<open>degreesLat\<close>.
\<close>

record 'sr ext =
  addHours :: "instant \<Rightarrow> rat \<Rightarrow> instant"
  twoline2satrec :: "jsval \<Rightarrow> jsval \<Rightarrow> js_error + 'sr"
  propagate :: "'sr \<Rightarrow> instant \<Rightarrow> js_error + propagation"
  gstime :: "instant \<Rightarrow> js_error + rat"
  eciToGeodetic :: "vec3 \<Rightarrow> rat \<Rightarrow> js_error + geodetic"
  degreesLong :: "rat \<Rightarrow> js_error + rat"
  degreesLat :: "rat \<Rightarrow> js_error + rat"
  fromDegrees :: "rat \<Rightarrow> rat \<Rightarrow> rat \<Rightarrow> js_error + vec3"
  fromRadians :: "rat \<Rightarrow> rat \<Rightarrow> rat \<Rightarrow> js_error + vec3"
  getValue :: "sample list \<Rightarrow> instant \<Rightarrow> js_error + vec3 option"
  cartesianToCartographic :: "vec3 \<Rightarrow> js_error + geodetic option"

text \<open>\<open>const stop = JulianDate.addHours(start, timewindow, new JulianDate())\<close>.\<close>

definition stopOf :: "'sr ext \<Rightarrow> instant \<Rightarrow> instant" where
  "stopOf X start = addHours X start timewindow"

text \<open>Statements in sequence: the first error thrown ends the run.\<close>

definition andThen :: "js_error + 'a \<Rightarrow> ('a \<Rightarrow> js_error + 'b) \<Rightarrow> js_error + 'b" where
  "andThen r f = (case r of Inl err \<Rightarrow> Inl err | Inr v \<Rightarrow> f v)"

text \<open>
  The part of the loop body after the test of \<open>prop.position\<close>, lines 122 to 128: the
  sample that \<open>position.addSample\<close> receives.
\<close>

definition toSample :: "'sr ext \<Rightarrow> instant \<Rightarrow> vec3 \<Rightarrow> js_error + sample" where
  "toSample X sampleTime p =
     andThen (gstime X sampleTime) (\<lambda>gmst.
     andThen (eciToGeodetic X p gmst) (\<lambda>geo.
     andThen (degreesLong X (longitude geo)) (\<lambda>lon.
     andThen (degreesLat X (latitude geo)) (\<lambda>lat.
     andThen (fromDegrees X lon lat (height geo * 1000)) (\<lambda>cart.
     Inr (sampleTime, cart))))))"

text \<open>
  One run of the loop body at offset \<open>t\<close>: an error thrown, \<open>None\<close> for \<open>continue\<close>, or the
  sample added. Reading \<open>prop.position\<close> throws a \<open>TypeError\<close> when \<open>prop\<close> is no object.
\<close>

definition sampleBody :: "'sr ext \<Rightarrow> 'sr \<Rightarrow> instant \<Rightarrow> nat \<Rightarrow> js_error + sample option" where
  "sampleBody X satrec start t =
     (let sampleTime = addSeconds start (of_nat t) in
      case propagate X satrec sampleTime of
        Inl err \<Rightarrow> Inl err
      | Inr NoObject \<Rightarrow> Inl TypeError
      | Inr (PosVel None) \<Rightarrow> Inr None
      | Inr (PosVel (Some p)) \<Rightarrow>
          (case toSample X sampleTime p of Inl err \<Rightarrow> Inl err | Inr s \<Rightarrow> Inr (Some s)))"

text \<open>
  \<open>for (let t = 0; t <= spanSec; t += 10) { ... }\<close>, from any \<open>t\<close>; \<open>position\<close> is the list
  of samples added so far, in the order of the \<open>addSample\<close> calls.
\<close>

function sampleLoop ::
  "'sr ext \<Rightarrow> 'sr \<Rightarrow> instant \<Rightarrow> rat \<Rightarrow> nat \<Rightarrow> sample list \<Rightarrow> js_error + sample list" where
  "sampleLoop X satrec start spanSec t position =
     (if of_nat t \<le> spanSec then
        (case sampleBody X satrec start t of
           Inl err \<Rightarrow> Inl err
         | Inr None \<Rightarrow> sampleLoop X satrec start spanSec (t + 10) position
         | Inr (Some s) \<Rightarrow> sampleLoop X satrec start spanSec (t + 10) (position @ [s]))
      else Inr position)"
  by pat_completeness auto
termination
proof (relation "measure (\<lambda>(X, satrec, start, spanSec, t, position). nat \<lfloor>spanSec\<rfloor> + 1 - t)")
  show "wf (measure (\<lambda>(X :: 'sr ext, satrec :: 'sr, start :: instant, spanSec :: rat, t :: nat,
      position :: sample list). nat \<lfloor>spanSec\<rfloor> + 1 - t))"
    by simp
next
  fix X :: "'sr ext" and satrec :: 'sr and start spanSec :: rat and t :: nat
    and position :: "sample list"
  assume "of_nat t \<le> spanSec"
  then have le: "int t \<le> \<lfloor>spanSec\<rfloor>"
    by (simp add: le_floor_iff)
  then show "((X, satrec, start, spanSec, t + 10, position), (X, satrec, start, spanSec, t, position))
      \<in> measure (\<lambda>(X, satrec, start, spanSec, t, position). nat \<lfloor>spanSec\<rfloor> + 1 - t)"
    by simp
  fix s :: sample
  from le
  show "((X, satrec, start, spanSec, t + 10, position @ [s]),
      (X, satrec, start, spanSec, t, position))
      \<in> measure (\<lambda>(X, satrec, start, spanSec, t, position). nat \<lfloor>spanSec\<rfloor> + 1 - t)"
    by simp
qed

declare sampleLoop.simps [simp del]

text \<open>
  What the program shows: the entities added to the viewer. A satellite entity has a
  name (also its label's text) and its sampled position; a ground-track entity has a name
  and its polyline's positions; \<open>Notice\<close> is the entity that is only a label with a fixed
  text; \<open>ErrorLabel\<close> is the label \<open>Error: ${err.message}\<close> of the \<open>catch\<close> block.
\<close>

datatype entity =
    Satellite jsval "sample list"
  | GroundTrack ustring "vec3 list"
  | Notice ustring
  | ErrorLabel js_error

text \<open>
  \<open>addSatelliteFromTLE\<close>: the satellite entity it adds to the viewer and returns, or the
  error thrown before \<open>viewer.entities.add\<close> is reached. \<open>start\<close> and \<open>stop\<close> are the
  module's constants.
\<close>

definition addSatelliteFromTLE ::
  "'sr ext \<Rightarrow> instant \<Rightarrow> instant \<Rightarrow> ElementSet \<Rightarrow> js_error + entity" where
  "addSatelliteFromTLE X start stop e =
     andThen (twoline2satrec X (tle1 e) (tle2 e)) (\<lambda>satrec.
     andThen (sampleLoop X satrec start (secondsDifference stop start) 0 []) (\<lambda>position.
     Inr (Satellite (name e) position)))"

text \<open>\<open>ent.position\<close>.\<close>

fun positionOf :: "entity \<Rightarrow> sample list" where
  "positionOf (Satellite n position) = position"
| "positionOf _ = []"

text \<open>
  \<open>tles.map((t) => addSatelliteFromTLE(...))\<close>: each call adds its entity to the viewer
  before the next one runs. \<open>view\<close> is the viewer's entity list. The result is the list
  when the map ends or throws, and the error thrown, if any.
\<close>

fun addSatellites ::
  "'sr ext \<Rightarrow> instant \<Rightarrow> instant \<Rightarrow> ElementSet list \<Rightarrow> entity list
   \<Rightarrow> entity list \<times> js_error option" where
  "addSatellites X start stop [] view = (view, None)"
| "addSatellites X start stop (e # es) view =
     (case addSatelliteFromTLE X start stop e of
        Inl err \<Rightarrow> (view, Some err)
      | Inr ent \<Rightarrow> addSatellites X start stop es (view @ [ent]))"

section \<open>Ground tracks and \<open>init\<close>\<close>

text \<open>
  One run of the body of the inner loop at offset \<open>t\<close>: an error thrown, \<open>None\<close> for
  \<open>continue\<close> when \<open>getValue\<close> gives \<open>undefined\<close>, or the point pushed. When
  \<open>cartesianToCartographic\<close> gives \<open>undefined\<close>, reading \<open>carto.longitude\<close> throws.
\<close>

definition groundBody :: "'sr ext \<Rightarrow> sample list \<Rightarrow> instant \<Rightarrow> nat \<Rightarrow> js_error + vec3 option" where
  "groundBody X position start t =
     (case getValue X position (addSeconds start (of_nat t)) of
        Inl err \<Rightarrow> Inl err
      | Inr None \<Rightarrow> Inr None
      | Inr (Some cart) \<Rightarrow>
          (case cartesianToCartographic X cart of
             Inl err \<Rightarrow> Inl err
           | Inr None \<Rightarrow> Inl TypeError
           | Inr (Some carto) \<Rightarrow>
               (case fromRadians X (longitude carto) (latitude carto) 0 of
                  Inl err \<Rightarrow> Inl err
                | Inr pt \<Rightarrow> Inr (Some pt))))"

text \<open>\<open>for (let t = 0; t <= spanSec; t += 30) { ... }\<close> for one entity, from any \<open>t\<close>.\<close>

function groundLoop ::
  "'sr ext \<Rightarrow> sample list \<Rightarrow> instant \<Rightarrow> rat \<Rightarrow> nat \<Rightarrow> vec3 list \<Rightarrow> js_error + vec3 list" where
  "groundLoop X position start spanSec t samples =
     (if of_nat t \<le> spanSec then
        (case groundBody X position start t of
           Inl err \<Rightarrow> Inl err
         | Inr None \<Rightarrow> groundLoop X position start spanSec (t + 30) samples
         | Inr (Some pt) \<Rightarrow> groundLoop X position start spanSec (t + 30) (samples @ [pt]))
      else Inr samples)"
  by pat_completeness auto
termination
proof (relation "measure (\<lambda>(X, position, start, spanSec, t, samples). nat \<lfloor>spanSec\<rfloor> + 1 - t)")
  show "wf (measure (\<lambda>(X :: 'sr ext, position :: sample list, start :: instant, spanSec :: rat,
      t :: nat, samples :: vec3 list). nat \<lfloor>spanSec\<rfloor> + 1 - t))"
    by simp
next
  fix X :: "'sr ext" and position :: "sample list" and start spanSec :: rat and t :: nat
    and samples :: "vec3 list"
  assume "of_nat t \<le> spanSec"
  then have le: "int t \<le> \<lfloor>spanSec\<rfloor>"
    by (simp add: le_floor_iff)
  then show "((X, position, start, spanSec, t + 30, samples), (X, position, start, spanSec, t, samples))
      \<in> measure (\<lambda>(X, position, start, spanSec, t, samples). nat \<lfloor>spanSec\<rfloor> + 1 - t)"
    by simp
  fix pt :: vec3
  from le
  show "((X, position, start, spanSec, t + 30, samples @ [pt]),
      (X, position, start, spanSec, t, samples))
      \<in> measure (\<lambda>(X, position, start, spanSec, t, samples). nat \<lfloor>spanSec\<rfloor> + 1 - t)"
    by simp
qed

declare groundLoop.simps [simp del]

text \<open>A value inside a template literal.\<close>

fun templ :: "jsval \<Rightarrow> ustring" where
  "templ Undefined = lit ''undefined''"
| "templ (Str s) = s"

text \<open>
  \<open>for (const [i, ent] of entities.entries()) { ... }\<close>: \<open>entities\<close> is \<open>tles.map(...)\<close>, so
  \<open>ent\<close> is paired with \<open>tles[i]\<close>. \<open>view\<close> is the viewer's entity list. The result is the
  list when the loop ends or throws, and the error thrown, if any.
\<close>

fun groundTracks ::
  "'sr ext \<Rightarrow> instant \<Rightarrow> rat \<Rightarrow> (ElementSet \<times> entity) list \<Rightarrow> entity list
   \<Rightarrow> entity list \<times> js_error option" where
  "groundTracks X start spanSec [] view = (view, None)"
| "groundTracks X start spanSec ((tle, ent) # rest) view =
     (case groundLoop X (positionOf ent) start spanSec 0 [] of
        Inl err \<Rightarrow> (view, Some err)
      | Inr samples \<Rightarrow>
          groundTracks X start spanSec rest
            (view @ [GroundTrack (templ (name tle) @ lit '' ground track'') samples]))"

text \<open>
  The outcome of \<open>fetch\<close>: a rejection, or a response with \<open>ok\<close>, \<open>status\<close> and the text
  of its body.
\<close>

record response =
  resp_ok :: bool
  resp_status :: nat
  resp_text :: ustring

definition loadTLEsFromPublic ::
  "ustring \<Rightarrow> js_error + response \<Rightarrow> js_error + ElementSet list" where
  "loadTLEsFromPublic file fetched =
     (case fetched of
        Inl err \<Rightarrow> Inl err
      | Inr res \<Rightarrow>
          if \<not> resp_ok res then
            Inl (Error (lit ''Failed to load '' @ file @ lit '': '' @ digits (resp_status res)))
          else parseTLEText (resp_text res))"

text \<open>
  \<open>init\<close>: the entities in the viewer when it ends; an error thrown anywhere in the \<open>try\<close>
  block ends it with the label of the \<open>catch\<close> block added. The camera flight changes
  no entity. \<open>start\<close> is \<open>JulianDate.now()\<close>.
\<close>

definition init :: "'sr ext \<Rightarrow> instant \<Rightarrow> js_error + response \<Rightarrow> entity list" where
  "init X start fetched =
     (case loadTLEsFromPublic (lit ''/TLE.txt'') fetched of
        Inl err \<Rightarrow> [ErrorLabel err]
      | Inr tles \<Rightarrow>
          if tles = [] then [Notice (lit ''No valid TLEs found in /TLE.txt'')]
          else
            (let stop = stopOf X start in
             case addSatellites X start stop tles [] of
               (view, Some err) \<Rightarrow> view @ [ErrorLabel err]
             | (entities, None) \<Rightarrow>
                 (let spanSec = secondsDifference stop start in
                  case groundTracks X start spanSec (zip tles entities) entities of
                    (view, None) \<Rightarrow> view
                  | (view, Some err) \<Rightarrow> view @ [ErrorLabel err])))"

subsection \<open>Cesium's sampled position\<close>

text \<open>
  \<open>SampledPositionProperty.getValue\<close> with Cesium's defaults, for samples in increasing
  time order: the sample at that instant, a linear interpolation between the two
  samples around it, and \<open>undefined\<close> outside the sampled interval (no extrapolation) or
  with no samples. It stands for \<open>getValue\<close> where a concrete library is needed.
\<close>

definition lerp :: "vec3 \<Rightarrow> vec3 \<Rightarrow> rat \<Rightarrow> vec3" where
  "lerp p q u =
     (case (p, q) of
        ((px, py, pz), (qx, qy, qz)) \<Rightarrow>
          (px + (qx - px) * u, py + (qy - py) * u, pz + (qz - pz) * u))"

fun sampledGetValue :: "sample list \<Rightarrow> instant \<Rightarrow> vec3 option" where
  "sampledGetValue [] t = None"
| "sampledGetValue [(t0, p0)] t = (if t = t0 then Some p0 else None)"
| "sampledGetValue ((t0, p0) # (t1, p1) # rest) t =
     (if t < t0 then None
      else if t = t0 then Some p0
      else if t < t1 then Some (lerp p0 p1 ((t - t0) / (t1 - t0)))
      else sampledGetValue ((t1, p1) # rest) t)"

subsection \<open>The instants of the specification\<close>

text \<open>
  The number of values of \<open>t\<close> stepping from 0 to \<open>spanSec\<close> inclusive by \<open>step\<close>.
\<close>

definition count :: "nat \<Rightarrow> rat \<Rightarrow> nat" where
  "count step spanSec = nat (\<lfloor>spanSec / of_nat step\<rfloor> + 1)"

text \<open>
  The specification's \<open>sample(elementSet, window)\<close>: the sampled position of the entity
  that \<open>addSatelliteFromTLE\<close> builds for the window from \<open>start\<close> to \<open>stop\<close>, or the error
  it throws.
\<close>

definition trajectory ::
  "'sr ext \<Rightarrow> instant \<Rightarrow> instant \<Rightarrow> ElementSet \<Rightarrow> js_error + sample list" where
  "trajectory X start stop e =
     (case addSatelliteFromTLE X start stop e of
        Inl err \<Rightarrow> Inl err
      | Inr ent \<Rightarrow> Inr (positionOf ent))"

text \<open>
  What \<open>propagate\<close> returns for an element set at an instant, or the error that
  \<open>twoline2satrec\<close> or \<open>propagate\<close> throws.
\<close>

definition propagateAt :: "'sr ext \<Rightarrow> ElementSet \<Rightarrow> instant \<Rightarrow> js_error + propagation" where
  "propagateAt X e j = andThen (twoline2satrec X (tle1 e) (tle2 e)) (\<lambda>satrec. propagate X satrec j)"

subsection \<open>Libraries for concrete runs\<close>

text \<open>
  A stand-in library in which no call throws: \<open>propagate\<close> returns what \<open>result\<close> gives
  for the instant, \<open>addHours\<close> is exact, positions are fixed and \<open>getValue\<close> is Cesium's
  sampled position.
\<close>

definition fakeLib :: "(instant \<Rightarrow> propagation) \<Rightarrow> unit ext" where
  "fakeLib result =
     \<lparr>addHours = (\<lambda>j h. j + h * 3600),
      twoline2satrec = (\<lambda>a b. Inr ()),
      propagate = (\<lambda>satrec j. Inr (result j)),
      gstime = (\<lambda>j. Inr 0),
      eciToGeodetic = (\<lambda>p g. Inr \<lparr>longitude = 0, latitude = 0, height = 622\<rparr>),
      degreesLong = (\<lambda>r. Inr r),
      degreesLat = (\<lambda>r. Inr r),
      fromDegrees = (\<lambda>lon lat alt. Inr (lon, lat, alt)),
      fromRadians = (\<lambda>lon lat alt. Inr (lon, lat, alt)),
      getValue = (\<lambda>position j. Inr (sampledGetValue position j)),
      cartesianToCartographic =
        (\<lambda>v. Inr (Some \<lparr>longitude = 0, latitude = 0, height = 622000\<rparr>))\<rparr>"

text \<open>The position the stand-in library's propagator returns.\<close>

definition fixedPosition :: propagation where
  "fixedPosition = PosVel (Some (7000, 0, 0))"


text \<open>
  The specification's invariant of an element set: a name and two element lines, each
  a non-empty string, the lines carrying their markers.
\<close>

definition wellFormed :: "ElementSet \<Rightarrow> bool" where
  "wellFormed e =
     (case (name e, tle1 e, tle2 e) of
        (Str n, Str a, Str b) \<Rightarrow>
          n \<noteq> [] \<and> a \<noteq> [] \<and> prefix (lit ''1 '') a \<and> b \<noteq> [] \<and> prefix (lit ''2 '') b
      | _ \<Rightarrow> False)"

section \<open>Properties of the parser\<close>

subsection \<open>What one run of the body does\<close>

lemma body_group2:
  "group2_at lines (idx st) \<Longrightarrow>
   body lines st = Inr \<lparr>idx = idx st + 2, out = out st @
     [\<lparr>name = Str (lit ''SAT '' @ digits (length (out st) + 1)),
       tle1 = Str (lines ! idx st), tle2 = Str (lines ! (idx st + 1))\<rparr>]\<rparr>"
  by (simp add: group2_at_def body_def Let_def startsWith_def optStartsWith_def index_def)

lemma body_group3:
  "group3_at lines (idx st) \<Longrightarrow>
   body lines st = Inr \<lparr>idx = idx st + 3, out = out st @
     [\<lparr>name = Str (lines ! idx st),
       tle1 = Str (lines ! (idx st + 1)), tle2 = Str (lines ! (idx st + 2))\<rparr>]\<rparr>"
  by (simp add: group3_at_def body_def Let_def startsWith_def optStartsWith_def index_def)

lemma body_junk:
  "idx st < length lines \<Longrightarrow> \<not> group2_at lines (idx st) \<Longrightarrow> \<not> group3_at lines (idx st) \<Longrightarrow>
   body lines st = Inr \<lparr>idx = idx st + 1, out = out st\<rparr>"
  by (auto simp add: group2_at_def group3_at_def body_def Let_def startsWith_def optStartsWith_def index_def)

lemma body_cases:
  assumes "idx st < length lines"
  obtains (pair) "group2_at lines (idx st)" | (named) "group3_at lines (idx st)"
   | (junk) "\<not> group2_at lines (idx st)" "\<not> group3_at lines (idx st)"
  by blast

lemma loop_group2:
  "group2_at lines (idx st) \<Longrightarrow>
   loop lines st = loop lines \<lparr>idx = idx st + 2, out = out st @
     [\<lparr>name = Str (lit ''SAT '' @ digits (length (out st) + 1)),
       tle1 = Str (lines ! idx st), tle2 = Str (lines ! (idx st + 1))\<rparr>]\<rparr>"
  by (subst loop.simps) (simp add: body_group2, simp add: group2_at_def)

lemma loop_group3:
  "group3_at lines (idx st) \<Longrightarrow>
   loop lines st = loop lines \<lparr>idx = idx st + 3, out = out st @
     [\<lparr>name = Str (lines ! idx st),
       tle1 = Str (lines ! (idx st + 1)), tle2 = Str (lines ! (idx st + 2))\<rparr>]\<rparr>"
  by (subst loop.simps) (simp add: body_group3, simp add: group3_at_def)

lemma loop_junk:
  "idx st < length lines \<Longrightarrow> \<not> group2_at lines (idx st) \<Longrightarrow> \<not> group3_at lines (idx st) \<Longrightarrow>
   loop lines st = loop lines \<lparr>idx = idx st + 1, out = out st\<rparr>"
  by (subst loop.simps) (simp add: body_junk)

lemma loop_done: "length lines \<le> idx st \<Longrightarrow> loop lines st = Inr st"
  by (subst loop.simps) simp

lemma loop_returns: "\<exists>r. loop lines st = Inr r"
proof (induction lines st rule: loop.induct)
  case (1 lines st)
  show ?case
  proof (cases "idx st < length lines")
    case False
    then show ?thesis by (simp add: loop_done)
  next
    case True
    then show ?thesis
    proof (cases rule: body_cases)
      case pair
      then show ?thesis using "1.IH" [OF True body_group2 [OF pair]] by (simp add: loop_group2)
    next
      case named
      then show ?thesis using "1.IH" [OF True body_group3 [OF named]] by (simp add: loop_group3)
    next
      case junk
      then show ?thesis using "1.IH" [OF True body_junk [OF True junk]] True by (simp add: loop_junk)
    qed
  qed
qed

lemma loop_extends: "loop lines st = Inr r \<Longrightarrow> \<exists>rest. out r = out st @ rest"
proof (induction lines st rule: loop.induct)
  case (1 lines st)
  show ?case
  proof (cases "idx st < length lines")
    case False
    then show ?thesis using "1.prems" by (simp add: loop_done)
  next
    case True
    then show ?thesis
    proof (cases rule: body_cases)
      case pair
      then show ?thesis using "1.IH" [OF True body_group2 [OF pair]] "1.prems" by (auto simp add: loop_group2)
    next
      case named
      then show ?thesis using "1.IH" [OF True body_group3 [OF named]] "1.prems" by (auto simp add: loop_group3)
    next
      case junk
      then show ?thesis using "1.IH" [OF True body_junk [OF True junk]] True "1.prems" by (auto simp add: loop_junk)
    qed
  qed
qed

lemma parse_returns: "\<exists>r. parseTLEText s = Inr r"
  using loop_returns [of "normalizeLines s" "\<lparr>idx = 0, out = []\<rparr>"]
  by (auto simp: parseTLEText_def)

subsection \<open>Bare pairs\<close>

text \<open>
  C1. When the normalized line list of the text is exactly a line starting with \<open>"1 "\<close>
  followed by a line starting with \<open>"2 "\<close>, \<open>parseTLEText\<close> returns exactly one element set,
  named \<open>"SAT 1"\<close>, with these two lines. In general, when the scan stands on such a pair
  with \<open>k - 1\<close> element sets emitted so far, the \<open>k\<close>-th element set of the final output is
  named \<open>"SAT k"\<close> and holds the pair.
\<close>

theorem two_line_group_auto_named:
  "(normalizeLines s = [a, b] \<and> prefix (lit ''1 '') a \<and> prefix (lit ''2 '') b \<longrightarrow>
      parseTLEText s = Inr [\<lparr>name = Str (lit ''SAT 1''), tle1 = Str a, tle2 = Str b\<rparr>])
   \<and> (group2_at lines (idx st) \<longrightarrow>
       (\<exists>r rest. loop lines st = Inr r \<and>
          out r = out st @
            \<lparr>name = Str (lit ''SAT '' @ digits (length (out st) + 1)),
             tle1 = Str (lines ! idx st), tle2 = Str (lines ! (idx st + 1))\<rparr> # rest))"
proof (intro conjI impI)
  assume h: "normalizeLines s = [a, b] \<and> prefix (lit ''1 '') a \<and> prefix (lit ''2 '') b"
  then have g: "group2_at [a, b] (idx \<lparr>idx = 0, out = []\<rparr>)"
    by (simp add: group2_at_def)
  have d: "digits (Suc 0) = lit ''1''"
    by (subst digits.simps) (simp add: lit_def)
  show "parseTLEText s = Inr [\<lparr>name = Str (lit ''SAT 1''), tle1 = Str a, tle2 = Str b\<rparr>]"
    using h by (simp add: parseTLEText_def loop_group2 [OF g] loop_done d lit_def)
next
  assume g: "group2_at lines (idx st)"
  obtain r where r: "loop lines st = Inr r"
    using loop_returns by blast
  from r loop_extends [of lines _ r] show "\<exists>r rest. loop lines st = Inr r \<and>
          out r = out st @
            \<lparr>name = Str (lit ''SAT '' @ digits (length (out st) + 1)),
             tle1 = Str (lines ! idx st), tle2 = Str (lines ! (idx st + 1))\<rparr> # rest"
    by (fastforce simp add: loop_group2 [OF g])
qed

theorem two_line_group_auto_named_witness:
  "normalizeLines (lit ''1 25544U'' @ [CR, LF] @ lit '' 2 25544 '' @ [LF])
     = [lit ''1 25544U'', lit ''2 25544'']
   \<and> parseTLEText (lit ''1 25544U'' @ [CR, LF] @ lit '' 2 25544 '' @ [LF])
     = Inr [\<lparr>name = Str (lit ''SAT 1''), tle1 = Str (lit ''1 25544U''),
             tle2 = Str (lit ''2 25544'')\<rparr>]
   \<and> group2_at [lit ''ISS'', lit ''1 a'', lit ''2 b'', lit ''1 c'', lit ''2 d''] 3
   \<and> (\<exists>r rest.
        loop [lit ''ISS'', lit ''1 a'', lit ''2 b'', lit ''1 c'', lit ''2 d'']
          \<lparr>idx = 3, out = [\<lparr>name = Str (lit ''ISS''), tle1 = Str (lit ''1 a''),
                              tle2 = Str (lit ''2 b'')\<rparr>]\<rparr> = Inr r
        \<and> out r = [\<lparr>name = Str (lit ''ISS''), tle1 = Str (lit ''1 a''),
                     tle2 = Str (lit ''2 b'')\<rparr>] @
            \<lparr>name = Str (lit ''SAT 2''), tle1 = Str (lit ''1 c''),
             tle2 = Str (lit ''2 d'')\<rparr> # rest)"
proof -
  let ?T = "lit ''1 25544U'' @ [CR, LF] @ lit '' 2 25544 '' @ [LF]"
  let ?L = "[lit ''ISS'', lit ''1 a'', lit ''2 b'', lit ''1 c'', lit ''2 d'']"
  let ?E = "\<lparr>name = Str (lit ''ISS''), tle1 = Str (lit ''1 a''), tle2 = Str (lit ''2 b'')\<rparr>"
  let ?st = "\<lparr>idx = 3, out = [?E]\<rparr>"
  note t = two_line_group_auto_named [of "?T" "lit ''1 25544U''" "lit ''2 25544''" "?L" "?st"]
  have n: "normalizeLines ?T = [lit ''1 25544U'', lit ''2 25544'']"
    by (simp add: normalizeLines_def splitLines_def trim_def isWhiteSpace_def lit_def
        LF_def CR_def)
  have p: "prefix (lit ''1 '') (lit ''1 25544U'') \<and> prefix (lit ''2 '') (lit ''2 25544'')"
    by (simp add: lit_def)
  have g: "group2_at ?L (idx ?st)"
    by (simp add: group2_at_def lit_def)
  have d: "lit ''SAT '' @ digits (length (out ?st) + 1) = lit ''SAT 2''"
    by (subst digits.simps) (simp add: lit_def)
  from t n p have c1: "parseTLEText ?T =
      Inr [\<lparr>name = Str (lit ''SAT 1''), tle1 = Str (lit ''1 25544U''),
            tle2 = Str (lit ''2 25544'')\<rparr>]"
    by blast
  from t g have c2: "\<exists>r rest. loop ?L ?st = Inr r \<and>
      out r = out ?st @ \<lparr>name = Str (lit ''SAT '' @ digits (length (out ?st) + 1)),
        tle1 = Str (?L ! idx ?st), tle2 = Str (?L ! (idx ?st + 1))\<rparr> # rest"
    by blast
  have c2': "\<exists>r rest. loop ?L ?st = Inr r \<and>
      out r = [?E] @ \<lparr>name = Str (lit ''SAT 2''), tle1 = Str (lit ''1 c''),
        tle2 = Str (lit ''2 d'')\<rparr> # rest"
    using c2 unfolding d by simp
  from g have g': "group2_at ?L 3" by simp
  from n c1 g' c2' show ?thesis by blast
qed

subsection \<open>Named groups\<close>

lemma body_returns: "idx st < length lines \<Longrightarrow> \<exists>st'. body lines st = Inr st'"
  by (simp add: body_def Let_def startsWith_def index_def)

lemma loop_invariant:
  "loop lines st = Inr r \<Longrightarrow> P (out st) \<Longrightarrow>
   (\<forall>s s'. P (out s) \<longrightarrow> idx s < length lines \<longrightarrow> body lines s = Inr s' \<longrightarrow> P (out s')) \<Longrightarrow>
   P (out r)"
proof (induction lines st rule: loop.induct)
  case (1 lines st)
  show ?case
  proof (cases "idx st < length lines")
    case False
    then show ?thesis using "1.prems" by (simp add: loop_done)
  next
    case True
    then obtain st' where b: "body lines st = Inr st'"
      using body_returns by blast
    have "loop lines st = loop lines st'"
      using True b by (subst loop.simps) simp
    moreover have "P (out st')"
      using "1.prems"(2,3) True b by blast
    ultimately show ?thesis
      using "1.IH" [OF True b] "1.prems"(1,3) by simp
  qed
qed

text \<open>
  C2. When the normalized line list of the text is a line not starting with \<open>"1 "\<close>, then
  a line starting with \<open>"1 "\<close>, then a line starting with \<open>"2 "\<close>, \<open>parseTLEText\<close> returns one
  element set whose name is the first line and whose two element lines are the
  following ones. At any scan state standing on such a group the body emits that
  element set and advances the index by 3.
\<close>

theorem three_line_group_named:
  "(normalizeLines s = [n, a, b] \<and> \<not> prefix (lit ''1 '') n \<and> prefix (lit ''1 '') a
      \<and> prefix (lit ''2 '') b \<longrightarrow>
      parseTLEText s = Inr [\<lparr>name = Str n, tle1 = Str a, tle2 = Str b\<rparr>])
   \<and> (group3_at lines (idx st) \<longrightarrow>
        body lines st = Inr \<lparr>idx = idx st + 3, out = out st @
          [\<lparr>name = Str (lines ! idx st), tle1 = Str (lines ! (idx st + 1)),
            tle2 = Str (lines ! (idx st + 2))\<rparr>]\<rparr>)"
proof (intro conjI impI)
  assume h: "normalizeLines s = [n, a, b] \<and> \<not> prefix (lit ''1 '') n \<and> prefix (lit ''1 '') a
      \<and> prefix (lit ''2 '') b"
  then have g: "group3_at [n, a, b] (idx \<lparr>idx = 0, out = []\<rparr>)"
    by (simp add: group3_at_def)
  show "parseTLEText s = Inr [\<lparr>name = Str n, tle1 = Str a, tle2 = Str b\<rparr>]"
    using h by (simp add: parseTLEText_def loop_group3 [OF g] loop_done)
next
  assume "group3_at lines (idx st)"
  then show "body lines st = Inr \<lparr>idx = idx st + 3, out = out st @
          [\<lparr>name = Str (lines ! idx st), tle1 = Str (lines ! (idx st + 1)),
            tle2 = Str (lines ! (idx st + 2))\<rparr>]\<rparr>"
    by (rule body_group3)
qed

theorem three_line_group_named_witness:
  "normalizeLines (lit ''ISS (ZARYA)'' @ [LF] @ lit ''1 25544U 98067A'' @ [LF]
      @ lit ''2 25544  51.6416'' @ [LF])
     = [lit ''ISS (ZARYA)'', lit ''1 25544U 98067A'', lit ''2 25544  51.6416'']
   \<and> parseTLEText (lit ''ISS (ZARYA)'' @ [LF] @ lit ''1 25544U 98067A'' @ [LF]
      @ lit ''2 25544  51.6416'' @ [LF])
     = Inr [\<lparr>name = Str (lit ''ISS (ZARYA)''), tle1 = Str (lit ''1 25544U 98067A''),
             tle2 = Str (lit ''2 25544  51.6416'')\<rparr>]
   \<and> group3_at [lit ''# note'', lit ''ISS'', lit ''1 a'', lit ''2 b''] 1
   \<and> body [lit ''# note'', lit ''ISS'', lit ''1 a'', lit ''2 b''] \<lparr>idx = 1, out = []\<rparr>
     = Inr \<lparr>idx = 4, out = [\<lparr>name = Str (lit ''ISS''), tle1 = Str (lit ''1 a''),
                                tle2 = Str (lit ''2 b'')\<rparr>]\<rparr>"
proof -
  let ?T = "lit ''ISS (ZARYA)'' @ [LF] @ lit ''1 25544U 98067A'' @ [LF]
      @ lit ''2 25544  51.6416'' @ [LF]"
  let ?L = "[lit ''# note'', lit ''ISS'', lit ''1 a'', lit ''2 b'']"
  let ?st = "\<lparr>idx = 1, out = []\<rparr>"
  note t = three_line_group_named [of "?T" "lit ''ISS (ZARYA)''" "lit ''1 25544U 98067A''"
      "lit ''2 25544  51.6416''" "?L" "?st"]
  have n: "normalizeLines ?T
      = [lit ''ISS (ZARYA)'', lit ''1 25544U 98067A'', lit ''2 25544  51.6416'']"
    by (simp add: normalizeLines_def splitLines_def trim_def isWhiteSpace_def lit_def
        LF_def CR_def)
  have p: "\<not> prefix (lit ''1 '') (lit ''ISS (ZARYA)'')
      \<and> prefix (lit ''1 '') (lit ''1 25544U 98067A'')
      \<and> prefix (lit ''2 '') (lit ''2 25544  51.6416'')"
    by (simp add: lit_def)
  have g: "group3_at ?L (idx ?st)"
    by (simp add: group3_at_def lit_def)
  from t n p have c1: "parseTLEText ?T
      = Inr [\<lparr>name = Str (lit ''ISS (ZARYA)''), tle1 = Str (lit ''1 25544U 98067A''),
              tle2 = Str (lit ''2 25544  51.6416'')\<rparr>]"
    by blast
  from t g have "body ?L ?st = Inr \<lparr>idx = idx ?st + 3, out = out ?st @
          [\<lparr>name = Str (?L ! idx ?st), tle1 = Str (?L ! (idx ?st + 1)),
            tle2 = Str (?L ! (idx ?st + 2))\<rparr>]\<rparr>"
    by blast
  then have c2: "body ?L ?st = Inr \<lparr>idx = 4, out = [\<lparr>name = Str (lit ''ISS''),
      tle1 = Str (lit ''1 a''), tle2 = Str (lit ''2 b'')\<rparr>]\<rparr>"
    by simp
  from g have g': "group3_at ?L 1" by simp
  from n c1 g' c2 show ?thesis by blast
qed

subsection \<open>No fault on any text\<close>

lemma index_past_end: "length lines \<le> j \<Longrightarrow> index lines j = Undefined"
  by (simp add: index_def)

lemma loop_no_groups:
  "(\<forall>i. idx st \<le> i \<longrightarrow> i < length lines \<longrightarrow> \<not> group2_at lines i \<and> \<not> group3_at lines i) \<Longrightarrow>
   \<exists>r. loop lines st = Inr r \<and> out r = out st"
proof (induction lines st rule: loop.induct)
  case (1 lines st)
  show ?case
  proof (cases "idx st < length lines")
    case False
    then show ?thesis by (simp add: loop_done)
  next
    case True
    with "1.prems" have j: "\<not> group2_at lines (idx st)" "\<not> group3_at lines (idx st)"
      by auto
    have b: "body lines st = Inr \<lparr>idx = idx st + 1, out = out st\<rparr>"
      using True j by (rule body_junk)
    show ?thesis
      using "1.IH" [OF True b] "1.prems" by (simp add: loop_junk [OF True j])
  qed
qed

text \<open>
  C6. \<open>parseTLEText\<close> returns a sequence, never an error, for every text. A lookup at a
  position past the end of the normalized line list is \<open>undefined\<close> and its optional
  \<open>startsWith\<close> test counts as a non-match; under the loop guard the body never faults;
  on the last line alone both lookahead branches fail and the line is skipped, and on
  the line before the last the 3-line branch fails; and a text whose normalized lines
  hold no group at any index yields the empty sequence.
\<close>

theorem parse_never_throws:
  "(\<exists>r. parseTLEText s = Inr r)
   \<and> (length lines \<le> j \<longrightarrow> index lines j = Undefined \<and> \<not> optStartsWith (index lines j) p)
   \<and> (idx st < length lines \<longrightarrow> (\<exists>st'. body lines st = Inr st'))
   \<and> (idx st + 1 = length lines \<longrightarrow> body lines st = Inr \<lparr>idx = idx st + 1, out = out st\<rparr>)
   \<and> (idx st + 2 = length lines \<and> \<not> group2_at lines (idx st) \<longrightarrow>
        body lines st = Inr \<lparr>idx = idx st + 1, out = out st\<rparr>)
   \<and> ((\<forall>i < length (normalizeLines s).
         \<not> group2_at (normalizeLines s) i \<and> \<not> group3_at (normalizeLines s) i) \<longrightarrow>
       parseTLEText s = Inr [])"
proof (intro conjI impI)
  show "\<exists>r. parseTLEText s = Inr r"
    by (rule parse_returns)
next
  assume "length lines \<le> j"
  then show "index lines j = Undefined"
    by (rule index_past_end)
next
  assume "length lines \<le> j"
  then show "\<not> optStartsWith (index lines j) p"
    by (simp add: index_past_end optStartsWith_def)
next
  assume "idx st < length lines"
  then show "\<exists>st'. body lines st = Inr st'"
    by (rule body_returns)
next
  assume l: "idx st + 1 = length lines"
  then have "idx st < length lines" "\<not> group2_at lines (idx st)" "\<not> group3_at lines (idx st)"
    by (simp_all add: group2_at_def group3_at_def)
  then show "body lines st = Inr \<lparr>idx = idx st + 1, out = out st\<rparr>"
    by (rule body_junk)
next
  assume l: "idx st + 2 = length lines \<and> \<not> group2_at lines (idx st)"
  then have "idx st < length lines" "\<not> group2_at lines (idx st)" "\<not> group3_at lines (idx st)"
    by (simp_all add: group3_at_def)
  then show "body lines st = Inr \<lparr>idx = idx st + 1, out = out st\<rparr>"
    by (rule body_junk)
next
  assume "\<forall>i < length (normalizeLines s).
         \<not> group2_at (normalizeLines s) i \<and> \<not> group3_at (normalizeLines s) i"
  then show "parseTLEText s = Inr []"
    using loop_no_groups [of "\<lparr>idx = 0, out = []\<rparr>" "normalizeLines s"]
    by (auto simp: parseTLEText_def)
qed

theorem parse_never_throws_witness:
  "(\<exists>r. parseTLEText (lit ''# junk'' @ [LF] @ lit ''1 only'') = Inr r)
   \<and> normalizeLines (lit ''# junk'' @ [LF] @ lit ''1 only'') = [lit ''# junk'', lit ''1 only'']
   \<and> index [lit ''# junk'', lit ''1 only''] 2 = Undefined
   \<and> \<not> optStartsWith (index [lit ''# junk'', lit ''1 only''] 2) (lit ''2 '')
   \<and> body [lit ''# junk'', lit ''1 only''] \<lparr>idx = 1, out = []\<rparr> = Inr \<lparr>idx = 2, out = []\<rparr>
   \<and> \<not> group2_at [lit ''# junk'', lit ''1 only''] 0
   \<and> body [lit ''# junk'', lit ''1 only''] \<lparr>idx = 0, out = []\<rparr> = Inr \<lparr>idx = 1, out = []\<rparr>
   \<and> parseTLEText (lit ''# junk'' @ [LF] @ lit ''1 only'') = Inr []"
proof -
  let ?T = "lit ''# junk'' @ [LF] @ lit ''1 only''"
  let ?L = "[lit ''# junk'', lit ''1 only'']"
  let ?st = "\<lparr>idx = 1, out = []\<rparr>"
  note t = parse_never_throws [of "?T" "?L" 2 "lit ''2 ''" "?st"]
  have n: "normalizeLines ?T = ?L"
    by (simp add: normalizeLines_def splitLines_def trim_def isWhiteSpace_def lit_def
        LF_def CR_def)
  have h1: "length ?L \<le> 2" by simp
  have h2: "idx ?st < length ?L" "idx ?st + 1 = length ?L" by simp_all
  have h3: "\<forall>i < length (normalizeLines ?T).
         \<not> group2_at (normalizeLines ?T) i \<and> \<not> group3_at (normalizeLines ?T) i"
    unfolding n by (simp add: group2_at_def group3_at_def lit_def less_Suc_eq)
  from t have c1: "\<exists>r. parseTLEText ?T = Inr r" by blast
  from t h1 have c2: "index ?L 2 = Undefined \<and> \<not> optStartsWith (index ?L 2) (lit ''2 '')"
    by blast
  from t h2 have "body ?L ?st = Inr \<lparr>idx = idx ?st + 1, out = out ?st\<rparr>" by blast
  then have c3: "body ?L ?st = Inr \<lparr>idx = 2, out = []\<rparr>" by simp
  from t h3 have c4: "parseTLEText ?T = Inr []" by blast
  let ?st0 = "\<lparr>idx = 0, out = []\<rparr>"
  have h4: "idx ?st0 + 2 = length ?L \<and> \<not> group2_at ?L (idx ?st0)"
    by (simp add: group2_at_def lit_def)
  from parse_never_throws [of "?T" "?L" 2 "lit ''2 ''" "?st0"] h4
  have "body ?L ?st0 = Inr \<lparr>idx = idx ?st0 + 1, out = out ?st0\<rparr>" by blast
  then have c5: "body ?L ?st0 = Inr \<lparr>idx = 1, out = []\<rparr>" by simp
  from h4 have h4': "\<not> group2_at ?L 0" by simp
  from c1 n c2 c3 h4' c5 c4 show ?thesis by blast
qed

subsection \<open>Every emitted element set is well formed\<close>

lemma prefix_lit_nonempty: "prefix (lit (c # cs)) l \<Longrightarrow> l \<noteq> []"
  by (auto simp: lit_def)

lemma body_emits_wellformed:
  assumes lines: "\<forall>l \<in> set lines. l \<noteq> []"
    and inv: "\<forall>e \<in> set (out s). wellFormed e"
    and i: "idx s < length lines"
    and b: "body lines s = Inr s'"
  shows "\<forall>e \<in> set (out s'). wellFormed e"
  using i
proof (cases rule: body_cases)
  case pair
  then have p: "prefix (lit ''1 '') (lines ! idx s)" "prefix (lit ''2 '') (lines ! (idx s + 1))"
    by (simp_all add: group2_at_def)
  then have "lines ! idx s \<noteq> []" "lines ! (idx s + 1) \<noteq> []"
    by (blast dest: prefix_lit_nonempty)+
  with p have "wellFormed \<lparr>name = Str (lit ''SAT '' @ digits (length (out s) + 1)),
       tle1 = Str (lines ! idx s), tle2 = Str (lines ! (idx s + 1))\<rparr>"
    by (simp add: wellFormed_def lit_def)
  then show ?thesis
    using inv b by (auto simp: body_group2 [OF pair])
next
  case named
  then have p: "idx s + 2 < length lines" "prefix (lit ''1 '') (lines ! (idx s + 1))"
    "prefix (lit ''2 '') (lines ! (idx s + 2))"
    by (simp_all add: group3_at_def)
  have "lines ! idx s \<noteq> []"
    using lines i by simp
  moreover from p have "lines ! (idx s + 1) \<noteq> []" "lines ! (idx s + 2) \<noteq> []"
    by (blast dest: prefix_lit_nonempty)+
  ultimately have "wellFormed \<lparr>name = Str (lines ! idx s),
       tle1 = Str (lines ! (idx s + 1)), tle2 = Str (lines ! (idx s + 2))\<rparr>"
    using p by (simp add: wellFormed_def)
  then show ?thesis
    using inv b by (auto simp: body_group3 [OF named])
next
  case junk
  then show ?thesis
    using inv b i by (auto simp: body_junk)
qed

text \<open>
  C7. Every element set that \<open>parseTLEText\<close> returns, for every text, has a first
  element line that is a non-empty string starting with \<open>"1 "\<close>, a second element line
  that is a non-empty string starting with \<open>"2 "\<close>, and a name that is a non-empty string;
  none of the three is \<open>undefined\<close>.
\<close>

theorem emitted_sets_wellformed:
  "parseTLEText s = Inr r \<Longrightarrow> e \<in> set r \<Longrightarrow>
   (\<exists>n a b. name e = Str n \<and> n \<noteq> []
      \<and> tle1 e = Str a \<and> a \<noteq> [] \<and> prefix (lit ''1 '') a
      \<and> tle2 e = Str b \<and> b \<noteq> [] \<and> prefix (lit ''2 '') b)"
proof -
  assume p: "parseTLEText s = Inr r" and e: "e \<in> set r"
  from p obtain st where l: "loop (normalizeLines s) \<lparr>idx = 0, out = []\<rparr> = Inr st"
    and r: "r = out st"
    by (auto simp: parseTLEText_def split: sum.splits)
  have lines: "\<forall>l \<in> set (normalizeLines s). l \<noteq> []"
    by (simp add: normalizeLines_def)
  have "\<forall>e \<in> set (out st). wellFormed e"
  proof (rule loop_invariant [OF l, where P = "\<lambda>es. \<forall>e \<in> set es. wellFormed e"])
    show "\<forall>e \<in> set (out \<lparr>idx = 0, out = []\<rparr>). wellFormed e"
      by simp
    show "\<forall>t t'. (\<forall>e \<in> set (out t). wellFormed e) \<longrightarrow> idx t < length (normalizeLines s) \<longrightarrow>
        body (normalizeLines s) t = Inr t' \<longrightarrow> (\<forall>e \<in> set (out t'). wellFormed e)"
      using body_emits_wellformed [OF lines] by blast
  qed
  with e r have "wellFormed e" by simp
  then show ?thesis
    by (auto simp: wellFormed_def split: jsval.splits)
qed

theorem emitted_sets_wellformed_witness:
  "parseTLEText (lit ''ISS'' @ [LF] @ lit ''1 a'' @ [LF] @ lit ''2 b'')
     = Inr [\<lparr>name = Str (lit ''ISS''), tle1 = Str (lit ''1 a''), tle2 = Str (lit ''2 b'')\<rparr>]
   \<and> \<lparr>name = Str (lit ''ISS''), tle1 = Str (lit ''1 a''), tle2 = Str (lit ''2 b'')\<rparr>
       \<in> set [\<lparr>name = Str (lit ''ISS''), tle1 = Str (lit ''1 a''), tle2 = Str (lit ''2 b'')\<rparr>]
   \<and> (\<exists>n a b.
        name \<lparr>name = Str (lit ''ISS''), tle1 = Str (lit ''1 a''), tle2 = Str (lit ''2 b'')\<rparr>
          = Str n \<and> n \<noteq> []
        \<and> tle1 \<lparr>name = Str (lit ''ISS''), tle1 = Str (lit ''1 a''), tle2 = Str (lit ''2 b'')\<rparr>
          = Str a \<and> a \<noteq> [] \<and> prefix (lit ''1 '') a
        \<and> tle2 \<lparr>name = Str (lit ''ISS''), tle1 = Str (lit ''1 a''), tle2 = Str (lit ''2 b'')\<rparr>
          = Str b \<and> b \<noteq> [] \<and> prefix (lit ''2 '') b)"
proof -
  let ?T = "lit ''ISS'' @ [LF] @ lit ''1 a'' @ [LF] @ lit ''2 b''"
  let ?E = "\<lparr>name = Str (lit ''ISS''), tle1 = Str (lit ''1 a''), tle2 = Str (lit ''2 b'')\<rparr>"
  have n: "normalizeLines ?T = [lit ''ISS'', lit ''1 a'', lit ''2 b'']"
    by (simp add: normalizeLines_def splitLines_def trim_def isWhiteSpace_def lit_def
        LF_def CR_def)
  have g: "group3_at [lit ''ISS'', lit ''1 a'', lit ''2 b''] (idx \<lparr>idx = 0, out = []\<rparr>)"
    by (simp add: group3_at_def lit_def)
  have p: "parseTLEText ?T = Inr [?E]"
    by (simp only: parseTLEText_def n) (simp add: loop_group3 [OF g] loop_done)
  have m: "?E \<in> set [?E]"
    by simp
  from emitted_sets_wellformed [OF p m] p m show ?thesis
    by blast
qed

subsection \<open>Termination of the scan\<close>

lemma body_step:
  assumes i: "idx st < length lines"
  shows "\<exists>st'. body lines st = Inr st'
     \<and> (idx st' = idx st + 1 \<and> out st' = out st
        \<or> (idx st' = idx st + 2 \<or> idx st' = idx st + 3) \<and> length (out st') = length (out st) + 1)"
  using i
proof (cases rule: body_cases)
  case pair
  then show ?thesis by (simp add: body_group2)
next
  case named
  then show ?thesis by (simp add: body_group3)
next
  case junk
  with i show ?thesis by (simp add: body_junk)
qed

lemma iterations_bound: "iterations lines st \<le> length lines - idx st"
proof (induction lines st rule: iterations.induct)
  case (1 lines st)
  show ?case
  proof (cases "idx st < length lines")
    case False
    then show ?thesis by (subst iterations.simps) simp
  next
    case True
    then obtain st' where b: "body lines st = Inr st'" and "idx st < idx st'"
      using body_step [OF True] by auto
    then show ?thesis
      using "1.IH" [OF True b] True by (subst iterations.simps) simp
  qed
qed

text \<open>
  C10. \<open>parseTLEText\<close> returns for every text. Every run of the loop body, at an index
  the guard admits, moves the index forward: by 1 with nothing emitted, or by 2 or 3
  with exactly one element set emitted. The body therefore runs at most as many times
  as lines remain, and at most once per normalized line over the whole scan.
\<close>

theorem scan_terminates:
  "(\<exists>r. parseTLEText s = Inr r)
   \<and> (idx st < length lines \<longrightarrow>
        (\<exists>st'. body lines st = Inr st'
           \<and> (idx st' = idx st + 1 \<and> out st' = out st
              \<or> (idx st' = idx st + 2 \<or> idx st' = idx st + 3)
                 \<and> length (out st') = length (out st) + 1)))
   \<and> iterations lines st \<le> length lines - idx st
   \<and> iterations (normalizeLines s) \<lparr>idx = 0, out = []\<rparr> \<le> length (normalizeLines s)"
  using parse_returns [of s] body_step [of st lines] iterations_bound [of lines st]
    iterations_bound [of "normalizeLines s" "\<lparr>idx = 0, out = []\<rparr>"]
  by simp

theorem scan_terminates_witness:
  "(\<exists>r. parseTLEText (lit ''ISS'' @ [LF] @ lit ''1 a'' @ [LF] @ lit ''2 b'') = Inr r)
   \<and> idx \<lparr>idx = 0, out = []\<rparr> < length [lit ''ISS'', lit ''1 a'', lit ''2 b'']
   \<and> body [lit ''ISS'', lit ''1 a'', lit ''2 b''] \<lparr>idx = 0, out = []\<rparr>
       = Inr \<lparr>idx = 3, out = [\<lparr>name = Str (lit ''ISS''), tle1 = Str (lit ''1 a''),
                                  tle2 = Str (lit ''2 b'')\<rparr>]\<rparr>
   \<and> iterations [lit ''ISS'', lit ''1 a'', lit ''2 b''] \<lparr>idx = 0, out = []\<rparr> = 1
   \<and> iterations [lit ''ISS'', lit ''1 a'', lit ''2 b''] \<lparr>idx = 0, out = []\<rparr>
       \<le> length [lit ''ISS'', lit ''1 a'', lit ''2 b''] - idx \<lparr>idx = 0, out = []\<rparr>"
proof -
  let ?T = "lit ''ISS'' @ [LF] @ lit ''1 a'' @ [LF] @ lit ''2 b''"
  let ?L = "[lit ''ISS'', lit ''1 a'', lit ''2 b'']"
  let ?st = "\<lparr>idx = 0, out = []\<rparr>"
  note t = scan_terminates [of "?T" "?st" "?L"]
  have h: "idx ?st < length ?L" by simp
  have g: "group3_at ?L (idx ?st)"
    by (simp add: group3_at_def lit_def)
  have b: "body ?L ?st = Inr \<lparr>idx = 3, out = [\<lparr>name = Str (lit ''ISS''),
      tle1 = Str (lit ''1 a''), tle2 = Str (lit ''2 b'')\<rparr>]\<rparr>"
    by (simp add: body_group3 [OF g])
  have i: "iterations ?L ?st = 1"
    by (subst iterations.simps, simp add: b, subst iterations.simps, simp)
  from t have c1: "\<exists>r. parseTLEText ?T = Inr r" by blast
  from t have c2: "iterations ?L ?st \<le> length ?L - idx ?st" by blast
  from c1 h b i c2 show ?thesis by blast
qed

section \<open>Properties of the sampler\<close>

subsection \<open>The instants of the loop\<close>

lemma count_inside: "0 < step \<Longrightarrow> j < count step spanSec \<Longrightarrow> of_nat (step * j) \<le> spanSec"
proof -
  assume s: "0 < step" and j: "j < count step spanSec"
  then have "int j \<le> \<lfloor>spanSec / of_nat step\<rfloor>"
    by (simp add: count_def)
  then have "of_nat j \<le> spanSec / of_nat step"
    by (simp add: le_floor_iff)
  with s show ?thesis
    by (simp add: pos_le_divide_eq mult.commute)
qed

lemma count_outside: "0 < step \<Longrightarrow> \<not> of_nat (step * count step spanSec) \<le> spanSec"
proof
  assume s: "0 < step" and "of_nat (step * count step spanSec) \<le> spanSec"
  then have "of_nat (count step spanSec) \<le> spanSec / of_nat step"
    by (simp add: pos_le_divide_eq mult.commute)
  then have "int (count step spanSec) \<le> \<lfloor>spanSec / of_nat step\<rfloor>"
    by (simp add: le_floor_iff)
  then show False
    unfolding count_def by linarith
qed

lemma toSample_time: "toSample X j p = Inr s \<Longrightarrow> fst s = j"
  by (auto simp: toSample_def andThen_def split: sum.splits)

lemma sampleBody_time: "sampleBody X satrec start t = Inr (Some s) \<Longrightarrow> fst s = addSeconds start (of_nat t)"
  by (auto simp: sampleBody_def Let_def split: sum.splits propagation.splits option.splits
      dest: toSample_time)

lemma sampleLoop_times:
  "j \<le> count 10 spanSec \<Longrightarrow> sampleLoop X satrec start spanSec (10 * j) position = Inr traj \<Longrightarrow>
   map fst traj = map fst position @
     map (\<lambda>k. addSeconds start (of_nat (10 * k)))
       (filter (\<lambda>k. sampleBody X satrec start (10 * k) \<noteq> Inr None) [j..<count 10 spanSec])"
proof (induction "count 10 spanSec - j" arbitrary: j position)
  case 0
  then have j: "j = count 10 spanSec" by simp
  from "0.prems"(2) show ?case
    unfolding j using count_outside [of 10 spanSec]
    by (subst (asm) sampleLoop.simps) simp
next
  case (Suc n)
  then have lt: "j < count 10 spanSec" by simp
  then have inside: "of_nat (10 * j) \<le> spanSec"
    using count_inside [of 10 j spanSec] by simp
  have upt: "[j..<count 10 spanSec] = j # [Suc j..<count 10 spanSec]"
    using lt by (simp add: upt_conv_Cons)
  have ih: "sampleLoop X satrec start spanSec (10 * j + 10) pos = Inr traj \<Longrightarrow>
      map fst traj = map fst pos @
        map (\<lambda>k. addSeconds start (of_nat (10 * k)))
          (filter (\<lambda>k. sampleBody X satrec start (10 * k) \<noteq> Inr None) [Suc j..<count 10 spanSec])"
    for pos
  proof -
    assume g: "sampleLoop X satrec start spanSec (10 * j + 10) pos = Inr traj"
    have "n = count 10 spanSec - Suc j" "Suc j \<le> count 10 spanSec"
      using Suc.hyps(2) lt by simp_all
    from Suc.hyps(1) [OF this, of pos] g show ?thesis
      by (simp add: add.commute)
  qed
  show ?case
  proof (cases "sampleBody X satrec start (10 * j)")
    case (Inl err)
    with Suc.prems(2) inside show ?thesis
      by (subst (asm) sampleLoop.simps) simp
  next
    case (Inr r)
    show ?thesis
    proof (cases r)
      case None
      with Inr Suc.prems(2) inside have "sampleLoop X satrec start spanSec (10 * j + 10) position = Inr traj"
        by (subst (asm) sampleLoop.simps) simp
      from ih [OF this] Inr None show ?thesis
        by (simp add: upt)
    next
      case (Some s)
      with Inr Suc.prems(2) inside
      have "sampleLoop X satrec start spanSec (10 * j + 10) (position @ [s]) = Inr traj"
        by (subst (asm) sampleLoop.simps) simp
      from ih [OF this] Inr Some sampleBody_time [of X satrec start "10 * j" s] show ?thesis
        by (simp add: upt)
    qed
  qed
qed

lemma trajectory_run:
  "trajectory X start stop e = Inr traj \<Longrightarrow>
   \<exists>satrec. twoline2satrec X (tle1 e) (tle2 e) = Inr satrec
     \<and> sampleLoop X satrec start (secondsDifference stop start) 0 [] = Inr traj"
  by (auto simp: trajectory_def addSatelliteFromTLE_def andThen_def split: sum.splits)

lemma trajectory_times:
  "twoline2satrec X (tle1 e) (tle2 e) = Inr satrec \<Longrightarrow> trajectory X start stop e = Inr traj \<Longrightarrow>
   map fst traj =
     map (\<lambda>k. addSeconds start (of_nat (10 * k)))
       (filter (\<lambda>k. sampleBody X satrec start (10 * k) \<noteq> Inr None)
          [0..<count 10 (secondsDifference stop start)])"
proof -
  assume s: "twoline2satrec X (tle1 e) (tle2 e) = Inr satrec" and t: "trajectory X start stop e = Inr traj"
  from trajectory_run [OF t] s
  have "sampleLoop X satrec start (secondsDifference stop start) (10 * 0) [] = Inr traj"
    by auto
  from sampleLoop_times [OF _ this] show ?thesis
    by simp
qed

subsection \<open>Order and range of the sample times\<close>

text \<open>
  C4. For every element set and every window, the sample times of the trajectory that
  the sampler produces are strictly increasing, and each lies between the window's
  \<open>start\<close> and \<open>stop\<close>, both included.
\<close>

theorem sample_times_increasing_in_window:
  "trajectory X start stop e = Inr traj \<Longrightarrow>
   sorted_wrt (<) (map fst traj) \<and> (\<forall>s \<in> set traj. start \<le> fst s \<and> fst s \<le> stop)"
proof -
  assume t: "trajectory X start stop e = Inr traj"
  from trajectory_run [OF t] obtain satrec where s: "twoline2satrec X (tle1 e) (tle2 e) = Inr satrec"
    by blast
  let ?P = "\<lambda>k. sampleBody X satrec start (10 * k) \<noteq> Inr None"
  let ?N = "count 10 (secondsDifference stop start)"
  have times: "map fst traj = map (\<lambda>k. addSeconds start (of_nat (10 * k))) (filter ?P [0..<?N])"
    using s t by (rule trajectory_times)
  have "sorted_wrt (<) (filter ?P [0..<?N])"
    by (rule sorted_wrt_filter) simp
  then have "sorted_wrt (\<lambda>a b. addSeconds start (of_nat (10 * a)) < addSeconds start (of_nat (10 * b)))
      (filter ?P [0..<?N])"
    by (rule sorted_wrt_mono_rel [rotated]) (simp add: addSeconds_def)
  then have sorted: "sorted_wrt (<) (map fst traj)"
    unfolding times by (simp add: sorted_wrt_map)
  have "start \<le> fst s \<and> fst s \<le> stop" if "s \<in> set traj" for s
  proof -
    from that have "fst s \<in> set (map fst traj)"
      by simp
    then obtain k where k: "k < ?N" and s: "fst s = addSeconds start (of_nat (10 * k))"
      unfolding times by auto
    from k have "of_nat (10 * k) \<le> secondsDifference stop start"
      using count_inside [of 10 k] by simp
    with s show ?thesis
      by (simp add: addSeconds_def secondsDifference_def)
  qed
  with sorted show ?thesis
    by blast
qed

theorem sample_times_increasing_in_window_witness:
  "trajectory (fakeLib (\<lambda>j. fixedPosition)) 0 20
      \<lparr>name = Str (lit ''SAT 1''), tle1 = Str (lit ''1 a''), tle2 = Str (lit ''2 b'')\<rparr>
     = Inr [(0, (0, 0, 622000)), (10, (0, 0, 622000)), (20, (0, 0, 622000))]
   \<and> (20, (0, 0, 622000)) \<in> set [(0 :: rat, (0 :: rat, 0 :: rat, 622000 :: rat)),
        (10, (0, 0, 622000)), (20, (0, 0, 622000))]
   \<and> sorted_wrt (<) (map fst [(0 :: rat, (0 :: rat, 0 :: rat, 622000 :: rat)),
        (10, (0, 0, 622000)), (20, (0, 0, 622000))])
   \<and> (0 :: rat) \<le> fst (20 :: rat, (0 :: rat, 0 :: rat, 622000 :: rat))
   \<and> fst (20 :: rat, (0 :: rat, 0 :: rat, 622000 :: rat)) \<le> (20 :: rat)"
proof -
  let ?L = "fakeLib (\<lambda>j. fixedPosition)"
  let ?E = "\<lparr>name = Str (lit ''SAT 1''), tle1 = Str (lit ''1 a''), tle2 = Str (lit ''2 b'')\<rparr>"
  let ?traj = "[(0 :: rat, (0 :: rat, 0 :: rat, 622000 :: rat)), (10, (0, 0, 622000)),
      (20, (0, 0, 622000))]"
  have r: "trajectory ?L 0 20 ?E = Inr ?traj"
    by code_simp
  note t = sample_times_increasing_in_window [OF r]
  have m: "(20, (0, 0, 622000)) \<in> set ?traj"
    by simp
  from t have c1: "sorted_wrt (<) (map fst ?traj)"
    by blast
  from t m have c2: "(0 :: rat) \<le> fst (20 :: rat, (0 :: rat, 0 :: rat, 622000 :: rat))
      \<and> fst (20 :: rat, (0 :: rat, 0 :: rat, 622000 :: rat)) \<le> (20 :: rat)"
    by blast
  from r m c1 c2 show ?thesis by blast
qed

subsection \<open>Failed propagations\<close>

lemma sampleLoop_skip:
  "of_nat t \<le> spanSec \<Longrightarrow> propagate X satrec (addSeconds start (of_nat t)) = Inr (PosVel None) \<Longrightarrow>
   sampleLoop X satrec start spanSec t position = sampleLoop X satrec start spanSec (t + 10) position"
  by (subst sampleLoop.simps) (simp add: sampleBody_def)

lemma sampleLoop_no_object:
  "of_nat t \<le> spanSec \<Longrightarrow> propagate X satrec (addSeconds start (of_nat t)) = Inr NoObject \<Longrightarrow>
   sampleLoop X satrec start spanSec t position = Inl TypeError"
  by (subst sampleLoop.simps) (simp add: sampleBody_def)

lemma sampleLoop_throws_at:
  "j \<le> m \<Longrightarrow> of_nat (10 * m) \<le> spanSec \<Longrightarrow> sampleBody X satrec start (10 * m) = Inl err \<Longrightarrow>
   (\<forall>k. j \<le> k \<and> k < m \<longrightarrow> (\<exists>r. sampleBody X satrec start (10 * k) = Inr r)) \<Longrightarrow>
   sampleLoop X satrec start spanSec (10 * j) position = Inl err"
proof (induction "m - j" arbitrary: j position)
  case 0
  then have "j = m" by simp
  with "0.prems"(2,3) show ?case
    by (subst sampleLoop.simps) simp
next
  case (Suc n)
  then have lt: "j < m" by simp
  with Suc.prems(2) have inside: "of_nat (10 * j) \<le> spanSec"
  proof -
    from lt have "(of_nat (10 * j) :: rat) \<le> of_nat (10 * m)"
      by (simp only: of_nat_le_iff)
    with Suc.prems(2) show ?thesis by simp
  qed
  from Suc.prems(4) lt obtain r where r: "sampleBody X satrec start (10 * j) = Inr r"
    by blast
  have ih: "sampleLoop X satrec start spanSec (10 * j + 10) pos = Inl err" for pos
  proof -
    have "n = m - Suc j" "Suc j \<le> m"
      using Suc.hyps(2) lt by simp_all
    moreover have "\<forall>k. Suc j \<le> k \<and> k < m \<longrightarrow> (\<exists>r. sampleBody X satrec start (10 * k) = Inr r)"
      using Suc.prems(4) by simp
    ultimately show ?thesis
      using Suc.hyps(1) [of "Suc j" pos] Suc.prems(2,3) by (simp add: add.commute)
  qed
  show ?case
    using inside r ih by (subst sampleLoop.simps) (simp split: option.splits)
qed

lemma sampleLoop_truncate:
  "span' \<le> spanSec \<Longrightarrow>
   (\<forall>u. span' < of_nat u \<longrightarrow> sampleBody X satrec start u = Inr None) \<Longrightarrow>
   sampleLoop X satrec start spanSec t position = sampleLoop X satrec start span' t position"
proof (induction X satrec start spanSec t position rule: sampleLoop.induct)
  case (1 X satrec start spanSec t position)
  note L = sampleLoop.simps [of X satrec start spanSec t position]
  note R = sampleLoop.simps [of X satrec start span' t position]
  note R' = sampleLoop.simps [of X satrec start span' "t + 10" position]
  show ?case
  proof (cases "of_nat t \<le> spanSec")
    case False
    with "1.prems"(1) have "\<not> of_nat t \<le> span'" by simp
    with False L R show ?thesis by simp
  next
    case True
    show ?thesis
    proof (cases "of_nat t \<le> span'")
      case inside: True
      show ?thesis
      proof (cases "sampleBody X satrec start t")
        case (Inl err)
        with True inside L R show ?thesis by simp
      next
        case (Inr r)
        show ?thesis
        proof (cases r)
          case None
          with Inr True inside L R "1.IH"(1) [OF True Inr None "1.prems"] show ?thesis by simp
        next
          case (Some s)
          with Inr True inside L R "1.IH"(2) [OF True Inr Some "1.prems"] show ?thesis by simp
        qed
      qed
    next
      case outside: False
      then have b: "sampleBody X satrec start t = Inr None"
        using "1.prems"(2) by simp
      from outside have "\<not> of_nat (t + 10) \<le> span'" by simp
      with True outside b L R R' "1.IH"(1) [OF True b refl "1.prems"] show ?thesis by simp
    qed
  qed
qed

lemma fakeLib_body:
  "sampleBody (fakeLib result) () start t =
     (case result (addSeconds start (of_nat t)) of
        NoObject \<Rightarrow> Inl TypeError
      | PosVel None \<Rightarrow> Inr None
      | PosVel (Some p) \<Rightarrow> Inr (Some (addSeconds start (of_nat t), (0, 0, 622000))))"
  by (simp add: sampleBody_def fakeLib_def toSample_def andThen_def Let_def
      split: propagation.splits option.splits)

lemma fakeLib_satellite:
  "addSatelliteFromTLE (fakeLib result) start stop e =
     (case sampleLoop (fakeLib result) () start (secondsDifference stop start) 0 [] of
        Inl err \<Rightarrow> Inl err
      | Inr position \<Rightarrow> Inr (Satellite (name e) position))"
  by (simp add: addSatelliteFromTLE_def andThen_def fakeLib_def)

lemma fakeLib_window: "secondsDifference (stopOf (fakeLib result) 0) 0 = 7200"
  by (simp add: secondsDifference_def stopOf_def fakeLib_def timewindow_def)

text \<open>
  C3, at an input where the code departs from it. The window is 2 hours from \<open>start\<close>,
  sampled every 10 seconds, and the propagation has a position at the offsets
  \<open>t \<le> 5400\<close> and fails after that by returning no object. The claim expects the 541
  samples of \<open>t = 0, 10, ..., 5400\<close>. The code produces no trajectory: at \<open>t = 5410\<close>
  reading \<open>prop.position\<close> throws a \<open>TypeError\<close>, and \<open>init\<close> ends with the error label
  as its only entity.
\<close>

theorem decayed_orbit_aborts:
  "trajectory (fakeLib (\<lambda>j. if j \<le> 5400 then fixedPosition else NoObject)) 0
      (stopOf (fakeLib (\<lambda>j. if j \<le> 5400 then fixedPosition else NoObject)) 0)
      \<lparr>name = Str (lit ''SAT 1''), tle1 = Str (lit ''1 a''), tle2 = Str (lit ''2 b'')\<rparr>
     = Inl TypeError
   \<and> init (fakeLib (\<lambda>j. if j \<le> 5400 then fixedPosition else NoObject)) 0
      (Inr \<lparr>resp_ok = True, resp_status = 200, resp_text = lit ''1 a'' @ [LF] @ lit ''2 b''\<rparr>)
     = [ErrorLabel TypeError]"
proof -
  let ?L = "fakeLib (\<lambda>j. if j \<le> 5400 then fixedPosition else NoObject)"
  let ?F = "Inr \<lparr>resp_ok = True, resp_status = 200, resp_text = lit ''1 a'' @ [LF] @ lit ''2 b''\<rparr>"
  let ?E = "\<lparr>name = Str (lit ''SAT 1''), tle1 = Str (lit ''1 a''), tle2 = Str (lit ''2 b'')\<rparr>"
  have inside: "(of_nat (10 * k) :: rat) \<le> 5400" if "k < 541" for k :: nat
  proof -
    from that have "10 * k \<le> 5400" by simp
    then have "(of_nat (10 * k) :: rat) \<le> of_nat 5400" by (simp only: of_nat_le_iff)
    then show ?thesis by simp
  qed
  have "sampleLoop ?L () 0 7200 (10 * 0) [] = Inl TypeError"
  proof (rule sampleLoop_throws_at [of 0 541])
    show "(0 :: nat) \<le> 541" by simp
    show "(of_nat (10 * 541) :: rat) \<le> 7200" by simp
    show "sampleBody ?L () 0 (10 * 541) = Inl TypeError"
      by (simp add: fakeLib_body addSeconds_def)
    show "\<forall>k. 0 \<le> k \<and> k < 541 \<longrightarrow> (\<exists>r. sampleBody ?L () 0 (10 * k) = Inr r)"
      using inside by (simp add: fakeLib_body addSeconds_def fixedPosition_def)
  qed
  then have a: "addSatelliteFromTLE ?L 0 (stopOf ?L 0) ?E = Inl TypeError"
    by (simp add: fakeLib_satellite fakeLib_window)
  then have t: "trajectory ?L 0 (stopOf ?L 0) ?E = Inl TypeError"
    by (simp add: trajectory_def)
  have l: "loadTLEsFromPublic (lit ''/TLE.txt'') ?F = Inr [?E]"
    by code_simp
  have "init ?L 0 ?F = [ErrorLabel TypeError]"
    by (simp only: init_def l) (simp add: Let_def a)
  with t show ?thesis
    by simp
qed

text \<open>
  C5, at inputs where the code departs from it. A propagation that fails by returning
  no object is not skipped: with a failure of this kind at the one instant \<open>t = 10\<close>,
  and likewise with such a failure at every sampled instant, the sampler produces no
  trajectory, empty or not, but throws a \<open>TypeError\<close> where it reads \<open>prop.position\<close>,
  and \<open>init\<close> ends with the error label as its only entity.
\<close>

theorem failed_propagation_aborts:
  "trajectory (fakeLib (\<lambda>j. if j = 10 then NoObject else fixedPosition)) 0
      (stopOf (fakeLib (\<lambda>j. if j = 10 then NoObject else fixedPosition)) 0)
      \<lparr>name = Str (lit ''SAT 1''), tle1 = Str (lit ''1 a''), tle2 = Str (lit ''2 b'')\<rparr>
     = Inl TypeError
   \<and> trajectory (fakeLib (\<lambda>j. NoObject)) 0 (stopOf (fakeLib (\<lambda>j. NoObject)) 0)
      \<lparr>name = Str (lit ''SAT 1''), tle1 = Str (lit ''1 a''), tle2 = Str (lit ''2 b'')\<rparr>
     = Inl TypeError
   \<and> init (fakeLib (\<lambda>j. NoObject)) 0
      (Inr \<lparr>resp_ok = True, resp_status = 200, resp_text = lit ''1 a'' @ [LF] @ lit ''2 b''\<rparr>)
     = [ErrorLabel TypeError]"
proof -
  let ?A = "fakeLib (\<lambda>j. if j = 10 then NoObject else fixedPosition)"
  let ?B = "fakeLib (\<lambda>j. NoObject)"
  let ?F = "Inr \<lparr>resp_ok = True, resp_status = 200, resp_text = lit ''1 a'' @ [LF] @ lit ''2 b''\<rparr>"
  let ?E = "\<lparr>name = Str (lit ''SAT 1''), tle1 = Str (lit ''1 a''), tle2 = Str (lit ''2 b'')\<rparr>"
  have "sampleLoop ?A () 0 7200 (10 * 0) [] = Inl TypeError"
  proof (rule sampleLoop_throws_at [of 0 1])
    show "(0 :: nat) \<le> 1" by simp
    show "(of_nat (10 * 1) :: rat) \<le> 7200" by simp
    show "sampleBody ?A () 0 (10 * 1) = Inl TypeError"
      by (simp add: fakeLib_body addSeconds_def)
    show "\<forall>k. 0 \<le> k \<and> k < 1 \<longrightarrow> (\<exists>r. sampleBody ?A () 0 (10 * k) = Inr r)"
      by (simp add: fakeLib_body addSeconds_def fixedPosition_def)
  qed
  then have ta: "trajectory ?A 0 (stopOf ?A 0) ?E = Inl TypeError"
    by (simp add: trajectory_def fakeLib_satellite fakeLib_window)
  have "sampleLoop ?B () 0 7200 0 [] = Inl TypeError"
    by (rule sampleLoop_no_object) (simp_all add: fakeLib_def)
  then have b: "addSatelliteFromTLE ?B 0 (stopOf ?B 0) ?E = Inl TypeError"
    by (simp add: fakeLib_satellite fakeLib_window)
  then have tb: "trajectory ?B 0 (stopOf ?B 0) ?E = Inl TypeError"
    by (simp add: trajectory_def)
  have l: "loadTLEsFromPublic (lit ''/TLE.txt'') ?F = Inr [?E]"
    by code_simp
  have "init ?B 0 ?F = [ErrorLabel TypeError]"
    by (simp only: init_def l) (simp add: Let_def b)
  with ta tb show ?thesis
    by simp
qed

section \<open>Properties of the ground tracks and of \<open>init\<close>\<close>

subsection \<open>How many points a ground track has\<close>

lemma groundLoop_length:
  "j \<le> count 30 spanSec \<Longrightarrow> groundLoop X position start spanSec (30 * j) samples = Inr pts \<Longrightarrow>
   length pts \<le> length samples + (count 30 spanSec - j)"
proof (induction "count 30 spanSec - j" arbitrary: j samples)
  case 0
  then have j: "j = count 30 spanSec" by simp
  from "0.prems"(2) show ?case
    unfolding j using count_outside [of 30 spanSec]
    by (subst (asm) groundLoop.simps) simp
next
  case (Suc n)
  then have lt: "j < count 30 spanSec" by simp
  then have inside: "of_nat (30 * j) \<le> spanSec"
    using count_inside [of 30 j spanSec] by simp
  have ih: "groundLoop X position start spanSec (30 * j + 30) acc = Inr pts \<Longrightarrow>
      length pts \<le> length acc + (count 30 spanSec - Suc j)" for acc
  proof -
    assume g: "groundLoop X position start spanSec (30 * j + 30) acc = Inr pts"
    have "n = count 30 spanSec - Suc j" "Suc j \<le> count 30 spanSec"
      using Suc.hyps(2) lt by simp_all
    from Suc.hyps(1) [OF this, of acc] g show ?thesis
      by (simp add: add.commute)
  qed
  from Suc.prems(2) inside lt show ?case
    by (subst (asm) groundLoop.simps) (auto split: sum.splits option.splits dest!: ih)
qed

lemma floor_third: "\<lfloor>x / 3\<rfloor> = \<lfloor>x\<rfloor> div 3" for x :: rat
proof (rule floor_unique)
  define a where "a = \<lfloor>x\<rfloor>"
  have x: "of_int a \<le> x" "x < of_int a + 1"
    using floor_correct [of x] by (simp_all add: a_def)
  have "3 * (a div 3) \<le> a" "a + 1 \<le> 3 * (a div 3) + 3"
    by presburger+
  then have "(of_int (3 * (a div 3)) :: rat) \<le> of_int a"
    "(of_int (a + 1) :: rat) \<le> of_int (3 * (a div 3) + 3)"
    by (simp_all only: of_int_le_iff)
  then have q: "3 * (of_int (a div 3) :: rat) \<le> of_int a"
    "(of_int a :: rat) + 1 \<le> 3 * of_int (a div 3) + 3"
    by simp_all
  from x q show "of_int (\<lfloor>x\<rfloor> div 3) \<le> x / 3"
    unfolding a_def [symmetric] by linarith
  from x q show "x / 3 < of_int (\<lfloor>x\<rfloor> div 3) + 1"
    unfolding a_def [symmetric] by linarith
qed

lemma count_ratio: "count 30 spanSec = (count 10 spanSec + 2) div 3"
proof -
  define a where "a = \<lfloor>spanSec / 10\<rfloor>"
  have "spanSec / 30 = (spanSec / 10) / 3"
    by simp
  then have "\<lfloor>spanSec / 30\<rfloor> = a div 3"
    by (simp only: floor_third a_def)
  then have c30: "count 30 spanSec = nat (a div 3 + 1)"
    by (simp add: count_def)
  have c10: "count 10 spanSec = nat (a + 1)"
    by (simp add: count_def a_def)
  have "int (nat (a div 3 + 1)) = int ((nat (a + 1) + 2) div 3)"
    by (simp add: zdiv_int) presburger
  then show ?thesis
    unfolding c30 c10 by (simp only: of_nat_eq_iff)
qed

lemma trajectory_complete:
  assumes t: "trajectory X start stop e = Inr traj"
    and a: "\<forall>k < count 10 (secondsDifference stop start).
      \<exists>p. propagateAt X e (addSeconds start (of_nat (10 * k))) = Inr (PosVel (Some p))"
  shows "length traj = count 10 (secondsDifference stop start)"
proof -
  let ?N = "count 10 (secondsDifference stop start)"
  from trajectory_run [OF t] obtain satrec where s: "twoline2satrec X (tle1 e) (tle2 e) = Inr satrec"
    by blast
  let ?P = "\<lambda>k. sampleBody X satrec start (10 * k) \<noteq> Inr None"
  have "?P k" if "k < ?N" for k
  proof -
    from a that s obtain p where
      "propagate X satrec (addSeconds start (of_nat (10 * k))) = Inr (PosVel (Some p))"
      by (auto simp: propagateAt_def andThen_def)
    then show ?thesis
      by (simp add: sampleBody_def Let_def split: sum.splits)
  qed
  then have "filter ?P [0..<?N] = [0..<?N]"
    by (simp only: filter_id_conv) auto
  with trajectory_times [OF s t] have "length (map fst traj) = ?N"
    by simp
  then show ?thesis
    by simp
qed

lemma groundLoop_truncate:
  "span' \<le> spanSec \<Longrightarrow>
   (\<forall>u. span' < of_nat u \<longrightarrow> groundBody X position start u = Inr None) \<Longrightarrow>
   groundLoop X position start spanSec t samples = groundLoop X position start span' t samples"
proof (induction X position start spanSec t samples rule: groundLoop.induct)
  case (1 X position start spanSec t samples)
  note L = groundLoop.simps [of X position start spanSec t samples]
  note R = groundLoop.simps [of X position start span' t samples]
  note R' = groundLoop.simps [of X position start span' "t + 30" samples]
  show ?case
  proof (cases "of_nat t \<le> spanSec")
    case False
    with "1.prems"(1) have "\<not> of_nat t \<le> span'" by simp
    with False L R show ?thesis by simp
  next
    case True
    show ?thesis
    proof (cases "of_nat t \<le> span'")
      case inside: True
      show ?thesis
      proof (cases "groundBody X position start t")
        case (Inl err)
        with True inside L R show ?thesis by simp
      next
        case (Inr r)
        show ?thesis
        proof (cases r)
          case None
          with Inr True inside L R "1.IH"(1) [OF True Inr None "1.prems"] show ?thesis by simp
        next
          case (Some pt)
          with Inr True inside L R "1.IH"(2) [OF True Inr Some "1.prems"] show ?thesis by simp
        qed
      qed
    next
      case outside: False
      then have b: "groundBody X position start t = Inr None"
        using "1.prems"(2) by simp
      from outside have "\<not> of_nat (t + 30) \<le> span'" by simp
      with True outside b L R R' "1.IH"(1) [OF True b refl "1.prems"] show ?thesis by simp
    qed
  qed
qed

lemma fakeLib_ground:
  "groundBody (fakeLib result) position start t =
     (case sampledGetValue position (addSeconds start (of_nat t)) of
        None \<Rightarrow> Inr None
      | Some cart \<Rightarrow> Inr (Some (0, 0, 0)))"
  by (simp add: groundBody_def fakeLib_def split: option.splits)

subsection \<open>Ground-track points against trajectory samples\<close>

text \<open>
  C8, as the code has it. The ground track of a satellite has at most one point for
  each of the instants \<open>t = 0, 30, 60, ...\<close> of the window, and the number of these
  instants is a third, rounded up, of the number of 10-second instants the sampler
  tries. When the propagator has a solution at every sampled instant, the trajectory
  has one sample per 10-second instant, so the ground track has at most a third,
  rounded up, of the trajectory's samples, and never more points than the trajectory
  has samples.
\<close>

theorem ground_track_count_bound:
  "trajectory X start stop e = Inr traj \<Longrightarrow>
   groundLoop X traj start (secondsDifference stop start) 0 [] = Inr pts \<Longrightarrow>
   length pts \<le> count 30 (secondsDifference stop start)
   \<and> count 30 (secondsDifference stop start) = (count 10 (secondsDifference stop start) + 2) div 3
   \<and> ((\<forall>k < count 10 (secondsDifference stop start).
          \<exists>p. propagateAt X e (addSeconds start (of_nat (10 * k))) = Inr (PosVel (Some p))) \<longrightarrow>
        length traj = count 10 (secondsDifference stop start)
        \<and> length pts \<le> (length traj + 2) div 3
        \<and> length pts \<le> length traj)"
proof -
  let ?span = "secondsDifference stop start"
  assume t: "trajectory X start stop e = Inr traj"
    and g: "groundLoop X traj start ?span 0 [] = Inr pts"
  have "groundLoop X traj start ?span (30 * 0) [] = Inr pts"
    using g by simp
  from groundLoop_length [OF _ this] have b: "length pts \<le> count 30 ?span"
    by simp
  note r = count_ratio [of ?span]
  have "length traj = count 10 ?span \<and> length pts \<le> (length traj + 2) div 3
        \<and> length pts \<le> length traj"
    if a: "\<forall>k < count 10 ?span.
          \<exists>p. propagateAt X e (addSeconds start (of_nat (10 * k))) = Inr (PosVel (Some p))"
  proof -
    have l: "length traj = count 10 ?span"
      using t a by (rule trajectory_complete)
    with b r have "length pts \<le> (length traj + 2) div 3"
      by simp
    moreover have "(length traj + 2) div 3 \<le> length traj"
      by presburger
    ultimately show ?thesis
      using l by simp
  qed
  with b r show ?thesis
    by blast
qed

theorem ground_track_count_bound_witness:
  "trajectory (fakeLib (\<lambda>j. fixedPosition)) 0 20
      \<lparr>name = Str (lit ''SAT 1''), tle1 = Str (lit ''1 a''), tle2 = Str (lit ''2 b'')\<rparr>
     = Inr [(0, (0, 0, 622000)), (10, (0, 0, 622000)), (20, (0, 0, 622000))]
   \<and> groundLoop (fakeLib (\<lambda>j. fixedPosition))
       [(0, (0, 0, 622000)), (10, (0, 0, 622000)), (20, (0, 0, 622000))]
       0 (secondsDifference 20 0) 0 [] = Inr [(0, 0, 0)]
   \<and> length [(0 :: rat, 0 :: rat, 0 :: rat)] \<le> count 30 (secondsDifference 20 0)
   \<and> length [(0 :: rat, (0 :: rat, 0 :: rat, 622000 :: rat)), (10, (0, 0, 622000)),
        (20, (0, 0, 622000))] = count 10 (secondsDifference 20 0)
   \<and> length [(0 :: rat, 0 :: rat, 0 :: rat)]
       \<le> (length [(0 :: rat, (0 :: rat, 0 :: rat, 622000 :: rat)), (10, (0, 0, 622000)),
        (20, (0, 0, 622000))] + 2) div 3"
proof -
  let ?L = "fakeLib (\<lambda>j. fixedPosition)"
  let ?E = "\<lparr>name = Str (lit ''SAT 1''), tle1 = Str (lit ''1 a''), tle2 = Str (lit ''2 b'')\<rparr>"
  let ?traj = "[(0 :: rat, (0 :: rat, 0 :: rat, 622000 :: rat)), (10, (0, 0, 622000)),
      (20, (0, 0, 622000))]"
  let ?pts = "[(0 :: rat, 0 :: rat, 0 :: rat)]"
  have t: "trajectory ?L 0 20 ?E = Inr ?traj"
    by code_simp
  have g: "groundLoop ?L ?traj 0 (secondsDifference 20 0) 0 [] = Inr ?pts"
    by code_simp
  have h: "\<forall>k < count 10 (secondsDifference 20 0).
      \<exists>p. propagateAt ?L ?E (addSeconds 0 (of_nat (10 * k))) = Inr (PosVel (Some p))"
    by (simp add: propagateAt_def andThen_def fakeLib_def fixedPosition_def)
  from ground_track_count_bound [OF t g] h
  have "length ?pts \<le> count 30 (secondsDifference 20 0)
      \<and> length ?traj = count 10 (secondsDifference 20 0)
      \<and> length ?pts \<le> (length ?traj + 2) div 3"
    by blast
  with t g show ?thesis
    by blast
qed

text \<open>
  With skipped samples the ground track can have more points than the trajectory has
  samples: in the program's window, a propagator with a solution only at \<open>t = 0\<close> and
  \<open>t = 60\<close> gives a trajectory of 2 samples, and \<open>getValue\<close> interpolates between them, so
  the ground track has the 3 points of \<open>t = 0, 30, 60\<close>.
\<close>

theorem ground_track_exceeds_trajectory:
  "trajectory (fakeLib (\<lambda>j. if j = 0 \<or> j = 60 then fixedPosition else PosVel None)) 0
      (stopOf (fakeLib (\<lambda>j. if j = 0 \<or> j = 60 then fixedPosition else PosVel None)) 0)
      \<lparr>name = Str (lit ''SAT 1''), tle1 = Str (lit ''1 a''), tle2 = Str (lit ''2 b'')\<rparr>
     = Inr [(0, (0, 0, 622000)), (60, (0, 0, 622000))]
   \<and> groundLoop (fakeLib (\<lambda>j. if j = 0 \<or> j = 60 then fixedPosition else PosVel None))
       [(0, (0, 0, 622000)), (60, (0, 0, 622000))] 0
       (secondsDifference
          (stopOf (fakeLib (\<lambda>j. if j = 0 \<or> j = 60 then fixedPosition else PosVel None)) 0) 0)
       0 []
     = Inr [(0, 0, 0), (0, 0, 0), (0, 0, 0)]
   \<and> \<not> length [(0 :: rat, 0 :: rat, 0 :: rat), (0, 0, 0), (0, 0, 0)]
       \<le> length [(0 :: rat, (0 :: rat, 0 :: rat, 622000 :: rat)), (60, (0, 0, 622000))]"
proof -
  let ?L = "fakeLib (\<lambda>j. if j = 0 \<or> j = 60 then fixedPosition else PosVel None)"
  let ?E = "\<lparr>name = Str (lit ''SAT 1''), tle1 = Str (lit ''1 a''), tle2 = Str (lit ''2 b'')\<rparr>"
  let ?traj = "[(0 :: rat, (0 :: rat, 0 :: rat, 622000 :: rat)), (60, (0, 0, 622000))]"
  have "sampleLoop ?L () 0 7200 0 [] = sampleLoop ?L () 0 60 0 []"
    by (rule sampleLoop_truncate) (simp_all add: fakeLib_body addSeconds_def)
  also have "\<dots> = Inr ?traj"
    by code_simp
  finally have t: "trajectory ?L 0 (stopOf ?L 0) ?E = Inr ?traj"
    by (simp add: trajectory_def fakeLib_satellite fakeLib_window)
  have "groundLoop ?L ?traj 0 7200 0 [] = groundLoop ?L ?traj 0 60 0 []"
    by (rule groundLoop_truncate) (simp_all add: fakeLib_ground addSeconds_def)
  also have "\<dots> = Inr [(0, 0, 0), (0, 0, 0), (0, 0, 0)]"
    by code_simp
  finally have g: "groundLoop ?L ?traj 0 (secondsDifference (stopOf ?L 0) 0) 0 []
      = Inr [(0, 0, 0), (0, 0, 0), (0, 0, 0)]"
    by (simp only: fakeLib_window)
  from t g show ?thesis
    by simp
qed

subsection \<open>The fallback notice\<close>

lemma addSatelliteFromTLE_entity:
  "addSatelliteFromTLE X start stop e = Inr ent \<Longrightarrow> \<exists>position. ent = Satellite (name e) position"
  by (auto simp: addSatelliteFromTLE_def andThen_def split: sum.splits)

lemma addSatellites_adds_no_notice:
  "addSatellites X start stop es view = (view', err) \<Longrightarrow> Notice msg \<notin> set view \<Longrightarrow>
   Notice msg \<notin> set view'"
proof (induction es arbitrary: view)
  case Nil
  then show ?case by simp
next
  case (Cons e es)
  show ?case
  proof (cases "addSatelliteFromTLE X start stop e")
    case (Inl thrown)
    with Cons.prems show ?thesis by simp
  next
    case (Inr ent)
    with Cons.prems have r: "addSatellites X start stop es (view @ [ent]) = (view', err)"
      by simp
    from addSatelliteFromTLE_entity [OF Inr] Cons.prems(2) have "Notice msg \<notin> set (view @ [ent])"
      by auto
    with Cons.IH [OF r] show ?thesis by simp
  qed
qed

lemma groundTracks_adds_no_notice:
  "groundTracks X start spanSec ps view = (view', err) \<Longrightarrow> Notice msg \<notin> set view \<Longrightarrow>
   Notice msg \<notin> set view'"
proof (induction ps arbitrary: view)
  case Nil
  then show ?case by simp
next
  case (Cons p ps)
  obtain tle ent where p: "p = (tle, ent)" by (cases p)
  show ?case
  proof (cases "groundLoop X (positionOf ent) start spanSec 0 []")
    case (Inl thrown)
    with Cons.prems p show ?thesis by simp
  next
    case (Inr samples)
    with Cons.prems p have "groundTracks X start spanSec ps
        (view @ [GroundTrack (templ (name tle) @ lit '' ground track'') samples]) = (view', err)"
      by simp
    from Cons.IH [OF this] Cons.prems(2) show ?thesis by simp
  qed
qed

text \<open>
  C9, as the code has it. When the parsed element-set list is empty, \<open>init\<close> shows the
  notice \<open>"No valid TLEs found in /TLE.txt"\<close> and nothing else. When the list is not
  empty, \<open>init\<close> shows no notice, whatever the sampled trajectories are, empty ones
  included.
\<close>

theorem notice_only_for_empty_list:
  "(loadTLEsFromPublic (lit ''/TLE.txt'') fetched = Inr [] \<longrightarrow>
      init X start fetched = [Notice (lit ''No valid TLEs found in /TLE.txt'')])
   \<and> (loadTLEsFromPublic (lit ''/TLE.txt'') fetched = Inr tles \<and> tles \<noteq> [] \<longrightarrow>
        (\<forall>msg. Notice msg \<notin> set (init X start fetched)))"
proof (intro conjI impI allI)
  assume "loadTLEsFromPublic (lit ''/TLE.txt'') fetched = Inr []"
  then show "init X start fetched = [Notice (lit ''No valid TLEs found in /TLE.txt'')]"
    by (simp add: init_def)
next
  fix msg
  let ?stop = "stopOf X start"
  let ?span = "secondsDifference ?stop start"
  assume a: "loadTLEsFromPublic (lit ''/TLE.txt'') fetched = Inr tles \<and> tles \<noteq> []"
  obtain ents thrown where s: "addSatellites X start ?stop tles [] = (ents, thrown)"
    by (cases "addSatellites X start ?stop tles []")
  from addSatellites_adds_no_notice [OF s] have e: "Notice msg \<notin> set ents"
    by simp
  show "Notice msg \<notin> set (init X start fetched)"
  proof (cases thrown)
    case (Some err)
    with a s e show ?thesis
      by (simp add: init_def Let_def)
  next
    case None
    obtain view err where g: "groundTracks X start ?span (zip tles ents) ents = (view, err)"
      by (cases "groundTracks X start ?span (zip tles ents) ents")
    from groundTracks_adds_no_notice [OF g e] have "Notice msg \<notin> set view" .
    with a s None g show ?thesis
      by (simp add: init_def Let_def split: option.splits)
  qed
qed

theorem notice_only_for_empty_list_witness:
  "loadTLEsFromPublic (lit ''/TLE.txt'')
      (Inr \<lparr>resp_ok = True, resp_status = 200, resp_text = lit ''# nothing''\<rparr>) = Inr []
   \<and> init (fakeLib (\<lambda>j. fixedPosition)) 0
      (Inr \<lparr>resp_ok = True, resp_status = 200, resp_text = lit ''# nothing''\<rparr>)
       = [Notice (lit ''No valid TLEs found in /TLE.txt'')]
   \<and> loadTLEsFromPublic (lit ''/TLE.txt'')
      (Inr \<lparr>resp_ok = True, resp_status = 200, resp_text = lit ''1 a'' @ [LF] @ lit ''2 b''\<rparr>)
       = Inr [\<lparr>name = Str (lit ''SAT 1''), tle1 = Str (lit ''1 a''), tle2 = Str (lit ''2 b'')\<rparr>]
   \<and> (\<forall>msg. Notice msg \<notin> set (init (fakeLib (\<lambda>j. fixedPosition)) 0
      (Inr \<lparr>resp_ok = True, resp_status = 200, resp_text = lit ''1 a'' @ [LF] @ lit ''2 b''\<rparr>)))"
proof -
  let ?L = "fakeLib (\<lambda>j. fixedPosition)"
  let ?F0 = "Inr \<lparr>resp_ok = True, resp_status = 200, resp_text = lit ''# nothing''\<rparr>"
  let ?F1 = "Inr \<lparr>resp_ok = True, resp_status = 200, resp_text = lit ''1 a'' @ [LF] @ lit ''2 b''\<rparr>"
  let ?E = "\<lparr>name = Str (lit ''SAT 1''), tle1 = Str (lit ''1 a''), tle2 = Str (lit ''2 b'')\<rparr>"
  have h0: "loadTLEsFromPublic (lit ''/TLE.txt'') ?F0 = Inr []"
    by code_simp
  have h1: "loadTLEsFromPublic (lit ''/TLE.txt'') ?F1 = Inr [?E]"
    by code_simp
  have ne: "[?E] \<noteq> []"
    by simp
  from notice_only_for_empty_list [of ?F0 ?L 0 "[]"] h0
  have c0: "init ?L 0 ?F0 = [Notice (lit ''No valid TLEs found in /TLE.txt'')]"
    by blast
  from notice_only_for_empty_list [of ?F1 ?L 0 "[?E]"] h1 ne
  have c1: "\<forall>msg. Notice msg \<notin> set (init ?L 0 ?F1)"
    by blast
  from h0 c0 h1 c1 show ?thesis
    by blast
qed

text \<open>
  A satellite whose sampled trajectory is empty gets no notice: with a propagator whose
  result never has a position, \<open>init\<close> shows the satellite with an empty position and
  its ground track with no points, and nothing else.
\<close>

theorem no_notice_for_empty_trajectory:
  "trajectory (fakeLib (\<lambda>j. PosVel None)) 0 (stopOf (fakeLib (\<lambda>j. PosVel None)) 0)
      \<lparr>name = Str (lit ''SAT 1''), tle1 = Str (lit ''1 a''), tle2 = Str (lit ''2 b'')\<rparr> = Inr []
   \<and> init (fakeLib (\<lambda>j. PosVel None)) 0
      (Inr \<lparr>resp_ok = True, resp_status = 200, resp_text = lit ''1 a'' @ [LF] @ lit ''2 b''\<rparr>)
       = [Satellite (Str (lit ''SAT 1'')) [], GroundTrack (lit ''SAT 1 ground track'') []]"
proof -
  let ?L = "fakeLib (\<lambda>j. PosVel None)"
  let ?F = "Inr \<lparr>resp_ok = True, resp_status = 200, resp_text = lit ''1 a'' @ [LF] @ lit ''2 b''\<rparr>"
  let ?E = "\<lparr>name = Str (lit ''SAT 1''), tle1 = Str (lit ''1 a''), tle2 = Str (lit ''2 b'')\<rparr>"
  have l: "loadTLEsFromPublic (lit ''/TLE.txt'') ?F = Inr [?E]"
    by code_simp
  have "sampleLoop ?L () 0 7200 0 [] = sampleLoop ?L () 0 (- 1) 0 []"
    by (rule sampleLoop_truncate) (simp_all add: fakeLib_body)
  also have "\<dots> = Inr []"
    by code_simp
  finally have s: "sampleLoop ?L () 0 7200 0 [] = Inr []" .
  then have a: "addSatelliteFromTLE ?L 0 (stopOf ?L 0) ?E = Inr (Satellite (Str (lit ''SAT 1'')) [])"
    by (simp add: fakeLib_satellite fakeLib_window)
  then have t: "trajectory ?L 0 (stopOf ?L 0) ?E = Inr []"
    by (simp add: trajectory_def)
  have "groundLoop ?L [] 0 7200 0 [] = groundLoop ?L [] 0 (- 1) 0 []"
    by (rule groundLoop_truncate) (simp_all add: fakeLib_ground)
  also have "\<dots> = Inr []"
    by code_simp
  finally have g: "groundLoop ?L [] 0 7200 0 [] = Inr []" .
  have "init ?L 0 ?F = [Satellite (Str (lit ''SAT 1'')) [], GroundTrack (lit ''SAT 1 ground track'') []]"
    by (simp only: init_def l)
      (simp add: Let_def a fakeLib_window g, simp add: lit_def)
  with t show ?thesis
    by simp
qed

end
